theory Spec2Isabelle
  imports Complex_Main
begin

section \<open>The training driver \<open>ppo/train_single.py\<close>\<close>

text \<open>
  The driver is a script: module-level code validates and normalises the parsed
  arguments and computes \<open>num_updates\<close>, then \<open>main()\<close> runs the
  collection / update / checkpoint / evaluation loop. Python integers are modelled as
  \<open>int\<close>, Python floats (learning rate, clip parameter) as \<open>real\<close>, so rounding
  is not modelled. The environments and the policy are external collaborators: what
  they return is a parameter of the model, and their own failures (a raising
  environment step, a tensor shape mismatch) are outside it, as is the throughput
  figure of the log line, which divides by elapsed wall-clock time.
\<close>

subsection \<open>Errors and integer arithmetic\<close>

datatype error = AssertionError string | ZeroDivisionError

text \<open>Python's \<open>a % b\<close> and \<open>a // b\<close> on integers: floor semantics (as HOL's
  \<open>mod\<close> and \<open>div\<close> on \<open>int\<close>), and an exception when \<open>b\<close> is 0.\<close>

definition py_mod :: "int \<Rightarrow> int \<Rightarrow> error + int" where
  "py_mod a b = (if b = 0 then Inl ZeroDivisionError else Inr (a mod b))"

definition py_floordiv :: "int \<Rightarrow> int \<Rightarrow> error + int" where
  "py_floordiv a b = (if b = 0 then Inl ZeroDivisionError else Inr (a div b))"

subsection \<open>The parsed arguments\<close>

text \<open>The fields of \<open>args\<close> that the driver's control flow reads.
  \<open>num_env_steps\<close> is the value of \<open>int(args.num_env_steps)\<close>.\<close>

record args =
  algo :: string
  recurrent_policy :: bool
  num_rollouts :: int
  num_processes :: int
  num_env_steps :: int
  num_steps :: int
  seed :: int
  lr :: real
  clip_param :: real
  use_linear_lr_decay :: bool
  use_linear_clip_decay :: bool
  save_interval :: int
  save_dir :: string
  log_interval :: int
  eval_interval :: "int option"
  vis :: bool
  vis_interval :: int

subsection \<open>Module-level validation and normalisation (lines 23--35)\<close>

text \<open>
  \<^verbatim>\<open>while args.num_rollouts < 30: args.num_rollouts += args.num_processes\<close>
  The loop need not terminate (it does not for \<open>num_processes \<le> 0\<close>); not
  returning is the value \<open>None\<close>.
\<close>

partial_function (option) num_rollouts_while :: "int \<Rightarrow> int \<Rightarrow> int option" where
  "num_rollouts_while r p = (if r < 30 then num_rollouts_while (r + p) p else Some r)"

declare num_rollouts_while.simps [code]

text \<open>Lines 28--31: the loop runs only when \<open>num_rollouts == 0\<close>.\<close>

definition normalize_num_rollouts :: "args \<Rightarrow> args option" where
  "normalize_num_rollouts a =
     (if num_rollouts a = 0
      then (case num_rollouts_while (num_rollouts a) (num_processes a) of
              None \<Rightarrow> None
            | Some r \<Rightarrow> Some (a\<lparr>num_rollouts := r\<rparr>))
      else Some a)"

text \<open>Lines 32--33: the divisibility assertion on the (normalised) arguments.\<close>

definition check_divisible :: "args \<Rightarrow> error + args" where
  "check_divisible a =
     (if num_rollouts a > 0
      then (case py_mod (num_rollouts a) (num_processes a) of
              Inl e \<Rightarrow> Inl e
            | Inr m \<Rightarrow>
                if m = 0 then Inr a
                else Inl (AssertionError ''num_rollouts must be divisable by num_processes''))
      else Inr a)"

text \<open>Lines 23--33 in order. \<open>Some (Inr a')\<close>: validation passed and the
  arguments are now \<open>a'\<close>; \<open>Some (Inl e)\<close>: the script stopped with \<open>e\<close>;
  \<open>None\<close>: the normalisation loop never returns.\<close>

definition validate :: "args \<Rightarrow> (error + args) option" where
  "validate a =
     (if algo a \<notin> set [''a2c'', ''ppo'', ''acktr''] then Some (Inl (AssertionError ''''))
      else if recurrent_policy a \<and> algo a \<notin> set [''a2c'', ''ppo'']
      then Some (Inl (AssertionError ''Recurrent policy is not implemented for ACKTR''))
      else (case normalize_num_rollouts a of
              None \<Rightarrow> None
            | Some a' \<Rightarrow> Some (check_divisible a')))"

text \<open>Line 35:
  \<^verbatim>\<open>num_updates = int(args.num_env_steps) // args.num_steps // args.num_processes\<close>\<close>

definition num_updates :: "args \<Rightarrow> error + int" where
  "num_updates a =
     (case py_floordiv (num_env_steps a) (num_steps a) of
        Inl e \<Rightarrow> Inl e
      | Inr q \<Rightarrow> py_floordiv q (num_processes a))"

subsection \<open>Rollout storage: what the driver writes first and reads (lines 111--118, 143--146)\<close>

text \<open>
  Modelled from the spec: the class \<open>RolloutStorage\<close> of
  \<open>ppo/a2c_ppo_acktr/storage.py\<close>, which is not among the sources. The spec has a
  rollout window of \<open>T + 1\<close> time slots by \<open>W\<close> workers, and the driver creates it with
  \<open>T = num_steps\<close>. The driver indexes the time axis with slot 0 and with \<open>step\<close> from
  \<open>range(num_steps)\<close> only, which are slots of every such window, so the time axis is a
  function from the slot to its row; a row is the list of its columns (one per worker of
  the width). Of the tensors, the three that the driver reads are kept.
\<close>

record ('o, 'h, 'm) rollout_storage =
  obs :: "nat \<Rightarrow> 'o list"
  recurrent_hidden_states :: "nat \<Rightarrow> 'h list"
  masks :: "nat \<Rightarrow> 'm list"

text \<open>Python's slice \<open>xs[:n]\<close>; a negative \<open>n\<close> counts from the end.\<close>

definition slice_to :: "int \<Rightarrow> 'a list \<Rightarrow> 'a list" where
  "slice_to n xs = (if 0 \<le> n then take (nat n) xs else take (length xs - nat (- n)) xs)"

text \<open>Line 111: the width the storage is created with.\<close>

definition storage_width :: "args \<Rightarrow> int" where
  "storage_width a = (if num_rollouts a > 0 then num_rollouts a else num_processes a)"

text \<open>Lines 115--118: the batch copied into \<open>rollouts.obs[0]\<close>.
  \<^verbatim>\<open>torch.cat([obs for _ in range(R // P)] + [obs[:(R % P)]], dim=0)\<close>\<close>

definition initial_obs :: "args \<Rightarrow> 'o list \<Rightarrow> error + 'o list" where
  "initial_obs a obs0 =
     (if num_rollouts a > 0
      then (case py_floordiv (num_rollouts a) (num_processes a) of
              Inl e \<Rightarrow> Inl e
            | Inr n \<Rightarrow>
               (case py_mod (num_rollouts a) (num_processes a) of
                  Inl e \<Rightarrow> Inl e
                | Inr m \<Rightarrow> Inr (concat (replicate (nat n) obs0) @ slice_to m obs0)))
      else Inr obs0)"

text \<open>\<^verbatim>\<open>rollouts.obs[0].copy_(row)\<close>: the row becomes slot 0 of the observations.\<close>

definition write_initial_obs ::
  "('o, 'h, 'm) rollout_storage \<Rightarrow> 'o list \<Rightarrow> ('o, 'h, 'm) rollout_storage" where
  "write_initial_obs ro row = ro\<lparr>obs := (obs ro)(0 := row)\<rparr>"

text \<open>Lines 143--146, in the body of the collection loop: the three arguments of
  \<open>actor_critic.act\<close>, each \<open>[step, :args.num_processes]\<close> of its tensor.\<close>

definition act_inputs ::
  "args \<Rightarrow> ('o, 'h, 'm) rollout_storage \<Rightarrow> nat \<Rightarrow> 'o list \<times> 'h list \<times> 'm list" where
  "act_inputs a ro step =
     (slice_to (num_processes a) (obs ro step),
      slice_to (num_processes a) (recurrent_hidden_states ro step),
      slice_to (num_processes a) (masks ro step))"

subsection \<open>External collaborators\<close>

text \<open>
  What the driver receives from the code it calls. An info dictionary is modelled by
  the one thing the driver reads from it: \<open>Some r\<close> when it has the key
  \<open>'episode'\<close> with return \<open>r\<close>, \<open>None\<close> otherwise.
  \<^item> \<open>reset_obs\<close>: the batch returned by \<open>envs.reset()\<close> (one entry per worker);
  \<^item> \<open>new_rollouts\<close>: the storage as \<open>RolloutStorage(...)\<close> returns it on line 111;
  \<^item> \<open>inserted j step ro\<close>: the storage after the call of \<open>rollouts.insert\<close> at step
    \<open>step\<close> of cycle \<open>j\<close>, when it was \<open>ro\<close> before (the inserted values come from the
    environments and the policy);
  \<^item> \<open>updated j ro\<close>: the storage after \<open>compute_returns\<close>, \<open>agent.update\<close> and
    \<open>after_update\<close> on cycle \<open>j\<close>, when it was \<open>ro\<close> before;
  \<^item> \<open>train_infos j step\<close>: the infos of \<open>envs.step\<close> on cycle \<open>j\<close>;
  \<^item> \<open>eval_infos j i\<close>: the infos of the \<open>i\<close>-th \<open>eval_envs.step\<close> of the
    evaluation started on cycle \<open>j\<close> (fresh environments per evaluation);
  \<^item> \<open>kfac_lr\<close>: the attribute \<open>agent.optimizer.lr\<close> of the ACKTR optimizer, which
    line 131 reads on every cycle; the schedule writes the learning rate of the
    parameter groups and leaves the attribute as it is.
\<close>

record ('o, 'h, 'm, 'r) world =
  reset_obs :: "'o list"
  new_rollouts :: "('o, 'h, 'm) rollout_storage"
  inserted :: "int \<Rightarrow> nat \<Rightarrow> ('o, 'h, 'm) rollout_storage \<Rightarrow> ('o, 'h, 'm) rollout_storage"
  updated :: "int \<Rightarrow> ('o, 'h, 'm) rollout_storage \<Rightarrow> ('o, 'h, 'm) rollout_storage"
  train_infos :: "int \<Rightarrow> nat \<Rightarrow> 'r option list"
  eval_infos :: "int \<Rightarrow> nat \<Rightarrow> 'r option list"
  kfac_lr :: real

text \<open>The returns of the episodes that finished in one batch of infos, in order.\<close>

definition episodes :: "'r option list \<Rightarrow> 'r list" where
  "episodes infos = List.map_filter (\<lambda>info. info) infos"

subsection \<open>The rolling log of episode returns (lines 121--122, 151--153)\<close>

definition deque_len :: "args \<Rightarrow> int" where
  "deque_len a =
     (if num_rollouts a > 0 then num_rollouts a
      else (if num_processes a > 10 then num_processes a else 10))"

text \<open>\<open>deque(maxlen=n).append(x)\<close>: a full deque drops its oldest entry.\<close>

definition deque_append :: "nat \<Rightarrow> 'a list \<Rightarrow> 'a \<Rightarrow> 'a list" where
  "deque_append maxlen d x =
     (if maxlen = 0 then d
      else if length d < maxlen then d @ [x]
      else tl d @ [x])"

subsection \<open>The state the loop carries\<close>

record ('o, 'h, 'm, 'r) train_state =
  optimizer_lr :: real
  agent_clip_param :: real
  episode_rewards :: "'r list"
  rollouts :: "('o, 'h, 'm) rollout_storage"

text \<open>The state on entry to the loop; \<open>row0\<close> is the batch of lines 115--118.\<close>

definition init_state ::
  "args \<Rightarrow> ('o, 'h, 'm, 'r) world \<Rightarrow> 'o list \<Rightarrow> ('o, 'h, 'm, 'r) train_state" where
  "init_state a w row0 =
     \<lparr>optimizer_lr = (if algo a = ''acktr'' then kfac_lr w else lr a),
      agent_clip_param = clip_param a,
      episode_rewards = [],
      rollouts = write_initial_obs (new_rollouts w) row0\<rparr>"

subsection \<open>Decay schedules (lines 127--136)\<close>

text \<open>
  Modelled from the spec: \<open>update_linear_schedule\<close> of
  \<open>ppo/a2c_ppo_acktr/utils.py\<close>, which is not among the sources. The spec has the
  learning rate decay linearly toward 0 as \<open>j\<close> approaches \<open>num_updates\<close>, that is
  \<open>initial_lr * (1 - epoch / total_num_epochs)\<close>, written into the optimizer.
\<close>

definition update_linear_schedule ::
  "('o, 'h, 'm, 'r) train_state \<Rightarrow> int \<Rightarrow> int \<Rightarrow> real \<Rightarrow> ('o, 'h, 'm, 'r) train_state" where
  "update_linear_schedule st epoch total_num_epochs initial_lr =
     st\<lparr>optimizer_lr := initial_lr * (1 - real_of_int epoch / real_of_int total_num_epochs)\<rparr>"

text \<open>Python's \<open>j / float(n)\<close>.\<close>

definition py_truediv :: "int \<Rightarrow> int \<Rightarrow> error + real" where
  "py_truediv j n = (if n = 0 then Inl ZeroDivisionError else Inr (real_of_int j / real_of_int n))"

definition lr_decay :: "args \<Rightarrow> int \<Rightarrow> ('o, 'h, 'm, 'r) world \<Rightarrow> int \<Rightarrow> ('o, 'h, 'm, 'r) train_state \<Rightarrow> ('o, 'h, 'm, 'r) train_state" where
  "lr_decay a N w j st =
     (if use_linear_lr_decay a
      then (if algo a = ''acktr'' then update_linear_schedule st j N (kfac_lr w)
            else update_linear_schedule st j N (lr a))
      else st)"

definition clip_decay :: "args \<Rightarrow> int \<Rightarrow> int \<Rightarrow> ('o, 'h, 'm, 'r) train_state \<Rightarrow> error + ('o, 'h, 'm, 'r) train_state" where
  "clip_decay a N j st =
     (if algo a = ''ppo'' \<and> use_linear_clip_decay a
      then (case py_truediv j N of
              Inl e \<Rightarrow> Inl e
            | Inr q \<Rightarrow> Inr (st\<lparr>agent_clip_param := clip_param a * (1 - q)\<rparr>))
      else Inr st)"

subsection \<open>Collection phase (lines 140--158)\<close>

text \<open>
  One pass of the body of \<open>for step in range(args.num_steps)\<close> on cycle \<open>j\<close>:
  \<open>act\<close> is called on the slices of the storage as it is, \<open>envs.step\<close> returns its
  infos, every finished episode's return is appended to the log, and
  \<open>rollouts.insert\<close> changes the storage. The pass adds to \<open>calls\<close> what \<open>act\<close> was
  called with, and the storage it was taken from.
\<close>

definition collect_step ::
  "args \<Rightarrow> ('o, 'h, 'm, 'r) world \<Rightarrow> int \<Rightarrow> nat
     \<Rightarrow> (('o, 'h, 'm) rollout_storage \<times> 'o list \<times> 'h list \<times> 'm list) list
          \<times> ('o, 'h, 'm, 'r) train_state
     \<Rightarrow> (('o, 'h, 'm) rollout_storage \<times> 'o list \<times> 'h list \<times> 'm list) list
          \<times> ('o, 'h, 'm, 'r) train_state" where
  "collect_step a w j step p =
     (let calls = fst p; st = snd p
      in (calls @ [(rollouts st, act_inputs a (rollouts st) step)],
          st\<lparr>episode_rewards :=
                foldl (deque_append (nat (deque_len a))) (episode_rewards st)
                  (episodes (train_infos w j step)),
             rollouts := inserted w j step (rollouts st)\<rparr>))"

definition collect ::
  "args \<Rightarrow> ('o, 'h, 'm, 'r) world \<Rightarrow> int \<Rightarrow> ('o, 'h, 'm, 'r) train_state
     \<Rightarrow> (('o, 'h, 'm) rollout_storage \<times> 'o list \<times> 'h list \<times> 'm list) list
          \<times> ('o, 'h, 'm, 'r) train_state" where
  "collect a w j st =
     foldl (\<lambda>p step. collect_step a w j step p) ([], st) [0..<nat (num_steps a)]"

subsection \<open>The scheduler gate and the periodic conditions (lines 160--203, 244)\<close>

text \<open>Line 160, the expression \<open>j % (args.num_rollouts // args.num_processes)\<close>:
  the index of the sub-window of the storage that cycle \<open>j\<close> belongs to.\<close>

definition sub_window_index :: "args \<Rightarrow> int \<Rightarrow> error + int" where
  "sub_window_index a j =
     (case py_floordiv (num_rollouts a) (num_processes a) of
        Inl e \<Rightarrow> Inl e
      | Inr n \<Rightarrow> py_mod j n)"

text \<open>Line 160: \<open>Inr True\<close> means \<open>continue\<close> (no update on this cycle).\<close>

definition skip_update :: "args \<Rightarrow> int \<Rightarrow> error + bool" where
  "skip_update a j =
     (if num_rollouts a > 0
      then (case sub_window_index a j of Inl e \<Rightarrow> Inl e | Inr k \<Rightarrow> Inr (k \<noteq> 0))
      else Inr False)"

text \<open>Line 172.\<close>

definition checkpoint_due :: "args \<Rightarrow> int \<Rightarrow> int \<Rightarrow> error + bool" where
  "checkpoint_due a N j =
     (case py_mod j (save_interval a) of
        Inl e \<Rightarrow> Inl e
      | Inr m \<Rightarrow> Inr ((m = 0 \<or> j = N - 1) \<and> save_dir a \<noteq> []))"

text \<open>Line 189.\<close>

definition log_due :: "args \<Rightarrow> int \<Rightarrow> ('o, 'h, 'm, 'r) train_state \<Rightarrow> error + bool" where
  "log_due a j st =
     (case py_mod j (log_interval a) of
        Inl e \<Rightarrow> Inl e
      | Inr m \<Rightarrow> Inr (m = 0 \<and> length (episode_rewards st) > 1))"

text \<open>Lines 201--203; \<open>and\<close> evaluates left to right and stops at the first false.\<close>

definition eval_due :: "args \<Rightarrow> int \<Rightarrow> ('o, 'h, 'm, 'r) train_state \<Rightarrow> error + bool" where
  "eval_due a j st =
     (case eval_interval a of
        None \<Rightarrow> Inr False
      | Some k \<Rightarrow>
          if length (episode_rewards st) > 1
          then (case py_mod j k of Inl e \<Rightarrow> Inl e | Inr m \<Rightarrow> Inr (m = 0))
          else Inr False)"

text \<open>Line 244.\<close>

definition vis_due :: "args \<Rightarrow> int \<Rightarrow> error + bool" where
  "vis_due a j =
     (if vis a
      then (case py_mod j (vis_interval a) of Inl e \<Rightarrow> Inl e | Inr m \<Rightarrow> Inr (m = 0))
      else Inr False)"

subsection \<open>Evaluation phase (lines 204--242)\<close>

text \<open>
  The variables of the evaluation loop, and three observations of what it did:
  \<open>eval_steps\<close> counts the calls of \<open>eval_envs.step\<close>, \<open>act_deterministic\<close>
  lists the \<open>deterministic\<close> argument of each \<open>act\<close> call, and
  \<open>reward_list_resets\<close> counts the executions of the branch under
  \<open>if reset_rewards\<close>.
\<close>

record 'r eval_state =
  eval_episode_rewards :: "'r list"
  eval_reward_list_robot1 :: "'r list list"
  eval_reward_list_robot2 :: "'r list list"
  eval_steps :: nat
  act_deterministic :: "bool list"
  reward_list_resets :: nat

definition eval_init :: "args \<Rightarrow> 'r eval_state" where
  "eval_init a =
     \<lparr>eval_episode_rewards = [],
      eval_reward_list_robot1 = replicate (nat (num_processes a)) [],
      eval_reward_list_robot2 = replicate (nat (num_processes a)) [],
      eval_steps = 0,
      act_deterministic = [],
      reward_list_resets = 0\<rparr>"

text \<open>The body of the \<open>while\<close> loop (lines 222--236), given the infos of its step.\<close>

definition eval_body :: "args \<Rightarrow> 'r option list \<Rightarrow> 'r eval_state \<Rightarrow> 'r eval_state" where
  "eval_body a infos es =
     (let es1 = es\<lparr>act_deterministic := act_deterministic es @ [True],
                   eval_steps := Suc (eval_steps es)\<rparr>;
          reset_rewards = False;
          es2 = es1\<lparr>eval_episode_rewards := eval_episode_rewards es1 @ episodes infos\<rparr>
      in if reset_rewards
         then es2\<lparr>eval_reward_list_robot1 := replicate (nat (num_processes a)) [],
                  eval_reward_list_robot2 := replicate (nat (num_processes a)) [],
                  reward_list_resets := Suc (reward_list_resets es2)\<rparr>
         else es2)"

text \<open>\<^verbatim>\<open>while (len(eval_episode_rewards) < 10): ...\<close> It returns only if the
  environments finish enough episodes.\<close>

partial_function (option) eval_loop ::
  "args \<Rightarrow> (nat \<Rightarrow> 'r option list) \<Rightarrow> 'r eval_state \<Rightarrow> 'r eval_state option" where
  "eval_loop a infos es =
     (if length (eval_episode_rewards es) < 10
      then eval_loop a infos (eval_body a (infos (eval_steps es)) es)
      else Some es)"

declare eval_loop.simps [code]

text \<open>One evaluation: the seed and the number of the environments it creates
  (lines 204--206) and the final loop state.\<close>

record 'r evaluation =
  eval_envs_seed :: int
  eval_envs_num :: int
  eval_final :: "'r eval_state"

definition evaluate :: "args \<Rightarrow> ('o, 'h, 'm, 'r) world \<Rightarrow> int \<Rightarrow> 'r evaluation option" where
  "evaluate a w j =
     (case eval_loop a (eval_infos w j) (eval_init a) of
        None \<Rightarrow> None
      | Some es \<Rightarrow>
          Some \<lparr>eval_envs_seed = seed a + num_processes a,
                eval_envs_num = num_processes a,
                eval_final = es\<rparr>)"

subsection \<open>One cycle of the loop (lines 125--250)\<close>

text \<open>What one completed cycle did: the learning rate and clip parameter in force
  after the decay step, the calls of \<open>act\<close> in the collection phase (each with the
  storage it read from), the length of the return log after collection, and whether
  the update, the checkpoint and the evaluation ran.\<close>

record ('o, 'h, 'm, 'r) cycle_event =
  ev_lr :: real
  ev_clip_param :: real
  ev_act_calls :: "(('o, 'h, 'm) rollout_storage \<times> 'o list \<times> 'h list \<times> 'm list) list"
  ev_logged_returns :: nat
  ev_update :: bool
  ev_checkpoint :: bool
  ev_eval :: "'r evaluation option"

text \<open>Lines 164--250: the part of the cycle behind the gate.\<close>

definition update_phase ::
  "args \<Rightarrow> int \<Rightarrow> ('o, 'h, 'm, 'r) world \<Rightarrow> int \<Rightarrow> ('o, 'h, 'm, 'r) train_state \<Rightarrow> ('o, 'h, 'm, 'r) cycle_event
     \<Rightarrow> (error + ('o, 'h, 'm, 'r) cycle_event \<times> ('o, 'h, 'm, 'r) train_state) option" where
  "update_phase a N w j st ev =
     (case checkpoint_due a N j of
        Inl e \<Rightarrow> Some (Inl e)
      | Inr sv \<Rightarrow>
     (case log_due a j st of
        Inl e \<Rightarrow> Some (Inl e)
      | Inr lg \<Rightarrow>
     (case eval_due a j st of
        Inl e \<Rightarrow> Some (Inl e)
      | Inr due \<Rightarrow>
     (case (if due then map_option Some (evaluate a w j) else Some None) of
        None \<Rightarrow> None
      | Some er \<Rightarrow>
     (case vis_due a j of
        Inl e \<Rightarrow> Some (Inl e)
      | Inr v \<Rightarrow>
          Some (Inr (ev\<lparr>ev_update := True, ev_checkpoint := sv, ev_eval := er\<rparr>,
                     st\<lparr>rollouts := updated w j (rollouts st)\<rparr>)))))))"

text \<open>\<open>Some (Inr (ev, st'))\<close>: the cycle completed; \<open>Some (Inl e)\<close>: it raised
  \<open>e\<close>; \<open>None\<close>: its evaluation loop never returns.\<close>

definition cycle ::
  "args \<Rightarrow> int \<Rightarrow> ('o, 'h, 'm, 'r) world \<Rightarrow> int \<Rightarrow> ('o, 'h, 'm, 'r) train_state
     \<Rightarrow> (error + ('o, 'h, 'm, 'r) cycle_event \<times> ('o, 'h, 'm, 'r) train_state) option" where
  "cycle a N w j st =
     (case clip_decay a N j (lr_decay a N w j st) of
        Inl e \<Rightarrow> Some (Inl e)
      | Inr st1 \<Rightarrow>
          (let calls = fst (collect a w j st1);
               st2 = snd (collect a w j st1);
               ev = \<lparr>ev_lr = optimizer_lr st1,
                     ev_clip_param = agent_clip_param st1,
                     ev_act_calls = calls,
                     ev_logged_returns = length (episode_rewards st2),
                     ev_update = False,
                     ev_checkpoint = False,
                     ev_eval = None\<rparr>
           in (case skip_update a j of
                 Inl e \<Rightarrow> Some (Inl e)
               | Inr True \<Rightarrow> Some (Inr (ev, st2))
               | Inr False \<Rightarrow> update_phase a N w j st2 ev)))"

subsection \<open>The loop and \<open>main\<close>\<close>

datatype outcome = Completed | Raised error | Hung

text \<open>\<^verbatim>\<open>for j in range(num_updates)\<close>: the events of the completed cycles, and how
  the loop ended.\<close>

fun train_loop ::
  "args \<Rightarrow> int \<Rightarrow> ('o, 'h, 'm, 'r) world \<Rightarrow> int list \<Rightarrow> ('o, 'h, 'm, 'r) train_state \<Rightarrow> ('o, 'h, 'm, 'r) cycle_event list
     \<Rightarrow> ('o, 'h, 'm, 'r) cycle_event list \<times> outcome" where
  "train_loop a N w [] st evs = (evs, Completed)"
| "train_loop a N w (j # js) st evs =
     (case cycle a N w j st of
        None \<Rightarrow> (evs, Hung)
      | Some (Inl e) \<Rightarrow> (evs, Raised e)
      | Some (Inr (ev, st')) \<Rightarrow> train_loop a N w js st' (evs @ [ev]))"

text \<open>Python's \<open>range(n)\<close>.\<close>

definition range_upto :: "int \<Rightarrow> int list" where
  "range_upto n = map int [0..<nat n]"

text \<open>\<open>main()\<close>, with the module-level \<open>num_updates\<close> as \<open>N\<close>.\<close>

definition main :: "args \<Rightarrow> int \<Rightarrow> ('o, 'h, 'm, 'r) world \<Rightarrow> ('o, 'h, 'm, 'r) cycle_event list \<times> outcome" where
  "main a N w =
     (case initial_obs a (reset_obs w) of
        Inl e \<Rightarrow> ([], Raised e)
      | Inr row0 \<Rightarrow> train_loop a N w (range_upto N) (init_state a w row0) [])"

text \<open>The module-level code before \<open>main()\<close> is called, lines 23--35: validation,
  then \<open>num_updates\<close>. \<open>Some (Inr (a', N))\<close>: \<open>main()\<close> is reached with the arguments
  \<open>a'\<close> and \<open>num_updates = N\<close>.\<close>

definition startup :: "args \<Rightarrow> (error + args \<times> int) option" where
  "startup a =
     (case validate a of
        None \<Rightarrow> None
      | Some (Inl e) \<Rightarrow> Some (Inl e)
      | Some (Inr a') \<Rightarrow>
          (case num_updates a' of
             Inl e \<Rightarrow> Some (Inl e)
           | Inr N \<Rightarrow> Some (Inr (a', N))))"

text \<open>The whole script: start-up, then \<open>main()\<close>.\<close>

definition script ::
  "args \<Rightarrow> ('o, 'h, 'm, 'r) world \<Rightarrow> ('o, 'h, 'm, 'r) cycle_event list \<times> outcome" where
  "script a w =
     (case startup a of
        None \<Rightarrow> ([], Hung)
      | Some (Inl e) \<Rightarrow> ([], Raised e)
      | Some (Inr (a', N)) \<Rightarrow> main a' N w)"

subsection \<open>Closed forms and concrete configurations\<close>

text \<open>The value the normalisation loop reaches from 0 with step \<open>p\<close>.\<close>

definition raised_rollouts :: "int \<Rightarrow> int" where
  "raised_rollouts p = p * (29 div p + 1)"

text \<open>A small configuration: 2 workers, storage 6 wide, so 3 collection cycles per
  storage width; 5 loop iterations of 2 steps each.\<close>

definition example_args :: args where
  "example_args =
     \<lparr>algo = ''ppo'', recurrent_policy = False, num_rollouts = 6, num_processes = 2,
      num_env_steps = 20, num_steps = 2, seed = 1, lr = 1 / 4, clip_param = 1 / 5,
      use_linear_lr_decay = True, use_linear_clip_decay = True,
      save_interval = 100, save_dir = ''trained_models'', log_interval = 10,
      eval_interval = None, vis = False, vis_interval = 100\<rparr>"

text \<open>The scheduler example of the spec: 90 rollouts on 30 workers.\<close>

definition args_90_30 :: args where
  "args_90_30 = example_args\<lparr>num_rollouts := 90, num_processes := 30, num_env_steps := 360\<rparr>"

text \<open>Thirty workers, none of which finishes an episode.\<close>

definition world_30 :: "(nat, nat, bool, int) world" where
  "world_30 =
     \<lparr>reset_obs = replicate 30 0,
      new_rollouts =
        \<lparr>obs = (\<lambda>t. replicate 90 0),
         recurrent_hidden_states = (\<lambda>t. replicate 90 0),
         masks = (\<lambda>t. replicate 90 True)\<rparr>,
      inserted = (\<lambda>j step ro. ro\<lparr>obs := (obs ro)(Suc step := replicate 90 (Suc step))\<rparr>),
      updated = (\<lambda>j ro. ro\<lparr>obs := (obs ro)(0 := obs ro 2)\<rparr>),
      train_infos = (\<lambda>j step. replicate 30 None),
      eval_infos = (\<lambda>j i. replicate 30 None),
      kfac_lr = 1 / 4\<rparr>"

text \<open>\<open>num_rollouts\<close> left at 0, with 4 workers and with none.\<close>

definition args_unset_4 :: args where
  "args_unset_4 = example_args\<lparr>num_rollouts := 0, num_processes := 4\<rparr>"

definition args_unset_0 :: args where
  "args_unset_0 = example_args\<lparr>num_rollouts := 0, num_processes := 0\<rparr>"

text \<open>A horizon of 0 steps; and a negative \<open>num_rollouts\<close> with no worker.\<close>

definition args_no_steps :: args where
  "args_no_steps = example_args\<lparr>num_steps := 0\<rparr>"

definition args_negative_0 :: args where
  "args_negative_0 = example_args\<lparr>num_rollouts := - 1, num_processes := 0\<rparr>"

text \<open>Environments in which the first worker finishes an episode at every step,
  in training and in evaluation. The storage is 6 columns wide; an insert at step
  \<open>step\<close> of cycle \<open>j\<close> writes \<open>10 * j + step + 1\<close> into every column of slot
  \<open>step + 1\<close> of the observations and clears the mask of column 1 there; the update
  carries slot 2 over to slot 0.\<close>

definition example_world :: "(nat, nat, bool, int) world" where
  "example_world =
     \<lparr>reset_obs = [0, 1],
      new_rollouts =
        \<lparr>obs = (\<lambda>t. replicate 6 0),
         recurrent_hidden_states = (\<lambda>t. replicate 6 0),
         masks = (\<lambda>t. replicate 6 True)\<rparr>,
      inserted = (\<lambda>j step ro.
        ro\<lparr>obs := (obs ro)(Suc step := replicate 6 (10 * nat j + step + 1)),
           masks := (masks ro)(Suc step := [True, False, True, True, True, True])\<rparr>),
      updated = (\<lambda>j ro.
        ro\<lparr>obs := (obs ro)(0 := obs ro 2), masks := (masks ro)(0 := masks ro 2)\<rparr>),
      train_infos = (\<lambda>j step. [Some 1, None]),
      eval_infos = (\<lambda>j i. [Some 7, Some 8, None]),
      kfac_lr = 1 / 4\<rparr>"

text \<open>The episode returns that the first \<open>n\<close> steps of an evaluation deliver.\<close>

definition gathered :: "(nat \<Rightarrow> 'r option list) \<Rightarrow> nat \<Rightarrow> 'r list" where
  "gathered infos n = concat (map (\<lambda>i. episodes (infos i)) [0..<n])"

text \<open>What holds between a state of the evaluation loop and the state it returns.\<close>

definition eval_rel :: "(nat \<Rightarrow> 'r option list) \<Rightarrow> 'r eval_state \<Rightarrow> 'r eval_state \<Rightarrow> bool" where
  "eval_rel infos es es' \<longleftrightarrow>
     eval_steps es \<le> eval_steps es'
     \<and> 10 \<le> length (eval_episode_rewards es')
     \<and> (\<exists>more. eval_episode_rewards es' = eval_episode_rewards es @ more)
     \<and> (eval_episode_rewards es = gathered infos (eval_steps es) \<longrightarrow>
          eval_episode_rewards es' = gathered infos (eval_steps es')
          \<and> (\<forall>n. eval_steps es \<le> n \<and> n < eval_steps es' \<longrightarrow> length (gathered infos n) < 10))
     \<and> act_deterministic es' =
          act_deterministic es @ replicate (eval_steps es' - eval_steps es) True
     \<and> reward_list_resets es' = reward_list_resets es
     \<and> eval_reward_list_robot1 es' = eval_reward_list_robot1 es
     \<and> eval_reward_list_robot2 es' = eval_reward_list_robot2 es"

text \<open>The small configuration with an evaluation every third cycle.\<close>

definition args_eval :: args where
  "args_eval = example_args\<lparr>eval_interval := Some 3\<rparr>"

section \<open>Properties\<close>

subsection \<open>The normalisation loop\<close>

lemma num_rollouts_while_steps:
  assumes p: "1 \<le> p"
  shows "num_rollouts_while r p =
           Some (if r < 30 then r + p * ((29 - r) div p + 1) else r)"
proof (induction "nat (30 - r)" arbitrary: r rule: less_induct)
  case less
  show ?case
  proof (cases "r < 30")
    case False
    then show ?thesis by (subst num_rollouts_while.simps) simp
  next
    case True
    have step: "num_rollouts_while r p = num_rollouts_while (r + p) p"
      using True by (subst num_rollouts_while.simps) simp
    have "nat (30 - (r + p)) < nat (30 - r)" using True p by simp
    from less[OF this] have ih: "num_rollouts_while (r + p) p =
       Some (if r + p < 30 then r + p + p * ((29 - (r + p)) div p + 1) else r + p)" .
    show ?thesis
    proof (cases "r + p < 30")
      case T2: True
      have "(29 - r) div p = (29 - (r + p)) div p + 1"
      proof -
        have "29 - r = (29 - (r + p)) + 1 * p" by simp
        then have "(29 - r) div p = ((29 - (r + p)) + 1 * p) div p" by simp
        also have "\<dots> = (29 - (r + p)) div p + 1"
          using p by (subst div_mult_self1) simp_all
        finally show ?thesis .
      qed
      then show ?thesis using step ih T2 True by (simp add: algebra_simps)
    next
      case F2: False
      have "0 \<le> 29 - r" "29 - r < p" using True F2 by simp_all
      then have "(29 - r) div p = 0" by simp
      then show ?thesis using step ih F2 True by simp
    qed
  qed
qed

lemma num_rollouts_while_diverges:
  assumes ret: "num_rollouts_while r p = Some y"
  shows "\<not> (p \<le> 0 \<and> r < 30)"
proof (rule num_rollouts_while.raw_induct
    [where P = "\<lambda>r p y. \<not> (p \<le> 0 \<and> r < 30)", OF _ ret])
  fix f :: "int \<Rightarrow> int \<Rightarrow> int option" and r' p' y'
  assume IH: "\<And>r p y. f r p = Some y \<Longrightarrow> \<not> (p \<le> 0 \<and> r < 30)"
    and eq: "(if r' < 30 then f (r' + p') p' else Some r') = Some y'"
  show "\<not> (p' \<le> 0 \<and> r' < 30)"
  proof
    assume h: "p' \<le> 0 \<and> r' < 30"
    with eq have "f (r' + p') p' = Some y'" by simp
    from IH[OF this] h show False by simp
  qed
qed

lemma num_rollouts_while_None:
  "p \<le> 0 \<Longrightarrow> r < 30 \<Longrightarrow> num_rollouts_while r p = None"
  using num_rollouts_while_diverges [of r p] by (cases "num_rollouts_while r p") auto

lemma num_rollouts_while_0:
  "1 \<le> p \<Longrightarrow> num_rollouts_while 0 p = Some (raised_rollouts p)"
  by (simp add: num_rollouts_while_steps raised_rollouts_def)

lemma raised_rollouts_ge:
  assumes "1 \<le> p" shows "30 \<le> raised_rollouts p"
proof -
  have "29 = p * (29 div p) + 29 mod p" by simp
  moreover have "29 mod p < p" using assms by simp
  ultimately have "29 < p * (29 div p) + p" by linarith
  then show ?thesis by (simp add: raised_rollouts_def algebra_simps)
qed

lemma raised_rollouts_least:
  assumes p: "1 \<le> p" and m: "30 \<le> m" and d: "p dvd m"
  shows "raised_rollouts p \<le> m"
proof -
  from d obtain q where q: "m = p * q" by (auto simp: dvd_def)
  have "29 div p < q"
  proof (rule ccontr)
    assume "\<not> 29 div p < q"
    then have "q \<le> 29 div p" by simp
    then have "p * q \<le> p * (29 div p)" using p by (simp add: mult_left_mono)
    also have "\<dots> \<le> 29" using p by (metis add_le_cancel_left le_add_same_cancel1 mult_div_mod_eq pos_mod_sign zero_less_one_class.zero_less_one order_less_le_trans)
    finally show False using m q by simp
  qed
  then have "29 div p + 1 \<le> q" by simp
  then have "p * (29 div p + 1) \<le> p * q" using p by (simp add: mult_left_mono)
  then show ?thesis by (simp add: raised_rollouts_def q)
qed

subsection \<open>Validation and \<open>num_updates\<close>\<close>

lemma normalize_num_rollouts_cases:
  "normalize_num_rollouts a =
     (if num_rollouts a \<noteq> 0 then Some a
      else if 1 \<le> num_processes a
      then Some (a\<lparr>num_rollouts := raised_rollouts (num_processes a)\<rparr>)
      else None)"
  by (simp add: normalize_num_rollouts_def num_rollouts_while_0 num_rollouts_while_None)

lemma check_divisible_cases:
  "check_divisible a =
     (if 0 < num_rollouts a
      then (if num_processes a = 0 then Inl ZeroDivisionError
            else if num_processes a dvd num_rollouts a then Inr a
            else Inl (AssertionError ''num_rollouts must be divisable by num_processes''))
      else Inr a)"
  by (simp add: check_divisible_def py_mod_def mod_eq_0_iff_dvd)

lemma check_divisible_raised:
  "1 \<le> num_processes a \<Longrightarrow>
   check_divisible (a\<lparr>num_rollouts := raised_rollouts (num_processes a)\<rparr>)
     = Inr (a\<lparr>num_rollouts := raised_rollouts (num_processes a)\<rparr>)"
  by (simp add: check_divisible_cases) (simp add: raised_rollouts_def)

lemma validate_Inr:
  assumes "validate a = Some (Inr a')"
  shows "a' = (if num_rollouts a = 0 then a\<lparr>num_rollouts := raised_rollouts (num_processes a)\<rparr> else a)
         \<and> (num_rollouts a = 0 \<longrightarrow> 1 \<le> num_processes a)
         \<and> (0 < num_rollouts a' \<longrightarrow> num_processes a \<noteq> 0 \<and> num_processes a dvd num_rollouts a')"
  using assms
  by (auto simp: validate_def normalize_num_rollouts_cases check_divisible_cases split: if_splits)

lemma num_updates_pos:
  assumes "0 < num_steps a" "0 < num_processes a"
  shows "num_updates a = Inr \<lfloor>real_of_int (num_env_steps a) / (real_of_int (num_steps a) * real_of_int (num_processes a))\<rfloor>"
proof -
  have "num_env_steps a div num_steps a div num_processes a = num_env_steps a div (num_steps a * num_processes a)"
    using assms by (simp add: zdiv_zmult2_eq)
  also have "\<dots> = \<lfloor>real_of_int (num_env_steps a) / real_of_int (num_steps a * num_processes a)\<rfloor>"
    by (simp only: floor_divide_of_int_eq)
  finally show ?thesis using assms by (simp add: num_updates_def py_floordiv_def)
qed

lemma validate_cases:
  "validate a =
     (if algo a \<notin> {''a2c'', ''ppo'', ''acktr''} then Some (Inl (AssertionError ''''))
      else if recurrent_policy a \<and> algo a \<notin> {''a2c'', ''ppo''}
      then Some (Inl (AssertionError ''Recurrent policy is not implemented for ACKTR''))
      else if num_rollouts a = 0
      then (if 1 \<le> num_processes a
            then Some (Inr (a\<lparr>num_rollouts := raised_rollouts (num_processes a)\<rparr>))
            else None)
      else Some (check_divisible a))"
  by (simp add: validate_def normalize_num_rollouts_cases check_divisible_raised)

lemma num_updates_cases:
  "num_updates a =
     (if num_steps a = 0 \<or> num_processes a = 0 then Inl ZeroDivisionError
      else Inr (num_env_steps a div num_steps a div num_processes a))"
  by (simp add: num_updates_def py_floordiv_def)

subsection \<open>The loop and its cycles\<close>

lemma train_loop_events:
  "train_loop a N w js st evs = (evs', out) \<Longrightarrow>
   \<exists>new. evs' = evs @ new \<and> length new \<le> length js
     \<and> (out = Completed \<longrightarrow> length new = length js)
     \<and> (\<forall>i < length new. \<exists>s s'. cycle a N w (js ! i) s = Some (Inr (new ! i, s')))"
proof (induction js arbitrary: st evs)
  case Nil
  then show ?case by simp
next
  case (Cons j js)
  show ?case
  proof (cases "cycle a N w j st")
    case None
    with Cons.prems show ?thesis by simp
  next
    case (Some r)
    show ?thesis
    proof (cases r)
      case (Inl e)
      with Some Cons.prems show ?thesis by auto
    next
      case (Inr p)
      obtain ev st' where p: "p = (ev, st')" by (cases p)
      with Some Inr Cons.prems have "train_loop a N w js st' (evs @ [ev]) = (evs', out)"
        by simp
      from Cons.IH [OF this] obtain new where new: "evs' = (evs @ [ev]) @ new"
        "length new \<le> length js" "out = Completed \<longrightarrow> length new = length js"
        "\<forall>i < length new. \<exists>s s'. cycle a N w (js ! i) s = Some (Inr (new ! i, s'))"
        by blast
      have c: "cycle a N w j st = Some (Inr (ev, st'))" using Some Inr p by simp
      have "\<forall>i < length (ev # new). \<exists>s s'. cycle a N w ((j # js) ! i) s = Some (Inr ((ev # new) ! i, s'))"
      proof (intro allI impI)
        fix i assume "i < length (ev # new)"
        then show "\<exists>s s'. cycle a N w ((j # js) ! i) s = Some (Inr ((ev # new) ! i, s'))"
          using c new(4) by (cases i) auto
      qed
      with new(1-3) show ?thesis
        by (intro exI [of _ "ev # new"]) simp
    qed
  qed
qed

lemma main_events:
  assumes "main a N w = (evs, out)"
  shows "length evs \<le> nat N" and "out = Completed \<Longrightarrow> length evs = nat N"
    and "i < length evs \<Longrightarrow> \<exists>s s'. cycle a N w (int i) s = Some (Inr (evs ! i, s'))"
proof -
  show "length evs \<le> nat N"
  proof (cases "initial_obs a (reset_obs w)")
    case (Inl e) with assms show ?thesis by (simp add: main_def)
  next
    case (Inr row0)
    with assms have "train_loop a N w (range_upto N) (init_state a w row0) [] = (evs, out)"
      by (simp add: main_def)
    from train_loop_events [OF this] show ?thesis by (auto simp: range_upto_def)
  qed
  show "out = Completed \<Longrightarrow> length evs = nat N"
  proof (cases "initial_obs a (reset_obs w)")
    case (Inl e) assume "out = Completed" with Inl assms show ?thesis by (simp add: main_def)
  next
    case (Inr row0)
    assume c: "out = Completed"
    from Inr assms have "train_loop a N w (range_upto N) (init_state a w row0) [] = (evs, out)"
      by (simp add: main_def)
    from train_loop_events [OF this] c show ?thesis by (auto simp: range_upto_def)
  qed
  show "i < length evs \<Longrightarrow> \<exists>s s'. cycle a N w (int i) s = Some (Inr (evs ! i, s'))"
  proof (cases "initial_obs a (reset_obs w)")
    case (Inl e) assume "i < length evs" with Inl assms show ?thesis by (simp add: main_def)
  next
    case (Inr row0)
    assume i: "i < length evs"
    from Inr assms have "train_loop a N w (range_upto N) (init_state a w row0) [] = (evs, out)"
      by (simp add: main_def)
    from train_loop_events [OF this] obtain new where new: "evs = new"
      "length new \<le> length (range_upto N)"
      "\<forall>i < length new. \<exists>s s'. cycle a N w (range_upto N ! i) s = Some (Inr (new ! i, s'))"
      by auto
    from new i have "i < nat N" by (simp add: range_upto_def)
    then have "range_upto N ! i = int i" by (simp add: range_upto_def)
    moreover from new i
    have "\<exists>s s'. cycle a N w (range_upto N ! i) s = Some (Inr (evs ! i, s'))" by simp
    ultimately show ?thesis by simp
  qed
qed

text \<open>What a completed cycle records.\<close>

lemma cycle_skipped:
  assumes "cycle a N w j s = Some (Inr (ev, s'))" and "skip_update a j = Inr True"
  shows "\<not> ev_update ev" "\<not> ev_checkpoint ev" "ev_eval ev = None"
  using assms by (auto simp: cycle_def Let_def split: sum.splits)

lemma update_phase_event:
  assumes "update_phase a N w j st ev0 = Some (Inr (ev, s'))"
  shows "ev_update ev"
    and "ev_checkpoint ev \<longleftrightarrow> save_dir a \<noteq> [] \<and> (save_interval a dvd j \<or> j = N - 1)"
    and "save_interval a \<noteq> 0"
    and "ev_lr ev = ev_lr ev0" "ev_clip_param ev = ev_clip_param ev0"
    and "ev_logged_returns ev = ev_logged_returns ev0"
    and "ev_act_calls ev = ev_act_calls ev0"
  using assms
  by (auto simp: update_phase_def checkpoint_due_def py_mod_def mod_eq_0_iff_dvd
      split: sum.splits option.splits if_splits)

lemma update_phase_eval:
  assumes "update_phase a N w j st ev0 = Some (Inr (ev, s'))" and "ev_eval ev = Some e"
  shows "\<exists>k. eval_interval a = Some k \<and> k \<noteq> 0 \<and> k dvd j"
    and "2 \<le> length (episode_rewards st)" and "evaluate a w j = Some e"
  using assms
  by (auto simp: update_phase_def eval_due_def py_mod_def mod_eq_0_iff_dvd
      split: sum.splits option.splits if_splits)

lemma cycle_update_iff:
  assumes "cycle a N w j s = Some (Inr (ev, s'))"
  shows "ev_update ev \<longleftrightarrow> skip_update a j = Inr False"
  using assms
  by (auto simp: cycle_def Let_def split: sum.splits bool.splits dest: update_phase_event(1))

lemma cycle_checkpoint_iff:
  assumes "cycle a N w j s = Some (Inr (ev, s'))"
  shows "ev_checkpoint ev \<longleftrightarrow>
           ev_update ev \<and> save_dir a \<noteq> [] \<and> (save_interval a dvd j \<or> j = N - 1)"
  using assms
  by (auto simp: cycle_def Let_def split: sum.splits bool.splits
      dest: update_phase_event(1) update_phase_event(2))

lemma cycle_lr:
  assumes "cycle a N w j s = Some (Inr (ev, s'))" and "use_linear_lr_decay a"
  shows "ev_lr ev = (if algo a = ''acktr'' then kfac_lr w else lr a)
                      * (1 - real_of_int j / real_of_int N)"
  using assms
  by (auto simp: cycle_def Let_def clip_decay_def lr_decay_def update_linear_schedule_def
      split: sum.splits bool.splits if_splits dest!: update_phase_event(4))

lemma cycle_clip:
  assumes "cycle a N w j s = Some (Inr (ev, s'))"
    and "algo a = ''ppo''" and "use_linear_clip_decay a"
  shows "ev_clip_param ev = clip_param a * (1 - real_of_int j / real_of_int N)" and "N \<noteq> 0"
  using assms
  by (auto simp: cycle_def Let_def clip_decay_def py_truediv_def
      split: sum.splits bool.splits if_splits dest!: update_phase_event(5))

lemma cycle_eval:
  fixes ev :: "('o, 'h, 'm, 'r) cycle_event"
  assumes "cycle a N w j s = Some (Inr (ev, s'))" and "ev_eval ev = Some e"
  shows "ev_update ev" and "\<exists>k. eval_interval a = Some k \<and> k \<noteq> 0 \<and> k dvd j"
    and "2 \<le> ev_logged_returns ev" and "evaluate a w j = Some e"
proof -
  from assms obtain st1 where st1: "clip_decay a N j (lr_decay a N w j s) = Inr st1"
    by (auto simp: cycle_def split: sum.splits)
  define st2 where "st2 = snd (collect a w j st1)"
  define ev0 :: "('o, 'h, 'm, 'r) cycle_event" where "ev0 = \<lparr>ev_lr = optimizer_lr st1, ev_clip_param = agent_clip_param st1,
      ev_act_calls = fst (collect a w j st1),
      ev_logged_returns = length (episode_rewards st2), ev_update = False,
      ev_checkpoint = False, ev_eval = None\<rparr>"
  from assms st1 have up: "update_phase a N w j st2 ev0 = Some (Inr (ev, s'))"
    by (auto simp: cycle_def Let_def st2_def ev0_def split: sum.splits bool.splits)
  from update_phase_event(1) [OF up] show "ev_update ev" .
  from update_phase_eval [OF up assms(2)]
  show "\<exists>k. eval_interval a = Some k \<and> k \<noteq> 0 \<and> k dvd j" "evaluate a w j = Some e"
    by blast+
  from update_phase_eval(2) [OF up assms(2)] update_phase_event(6) [OF up]
  show "2 \<le> ev_logged_returns ev" by (simp add: ev0_def)
qed

text \<open>The calls of \<open>act\<close> in one collection phase.\<close>

lemma collect_upto:
  "foldl (\<lambda>p step. collect_step a w j step p) ([], st) [0..<n] = (calls, st') \<Longrightarrow>
   length calls = n
   \<and> (\<forall>s < n. snd (calls ! s) = act_inputs a (fst (calls ! s)) s)
   \<and> (0 < n \<longrightarrow> fst (calls ! 0) = rollouts st)"
proof (induction n arbitrary: calls st')
  case 0
  then show ?case by simp
next
  case (Suc n)
  obtain c t where p: "foldl (\<lambda>p step. collect_step a w j step p) ([], st) [0..<n] = (c, t)"
    by (cases "foldl (\<lambda>p step. collect_step a w j step p) ([], st) [0..<n]")
  from Suc.IH [OF p] have len: "length c = n"
    and inp: "\<forall>s < n. snd (c ! s) = act_inputs a (fst (c ! s)) s"
    and fst0: "0 < n \<longrightarrow> fst (c ! 0) = rollouts st"
    by blast+
  from Suc.prems p have calls: "calls = c @ [(rollouts t, act_inputs a (rollouts t) n)]"
    by (simp add: collect_step_def Let_def)
  have t0: "n = 0 \<Longrightarrow> t = st" using p by simp
  have 1: "length calls = Suc n" using calls len by simp
  have 2: "snd (calls ! s) = act_inputs a (fst (calls ! s)) s" if "s < Suc n" for s
  proof (cases "s < n")
    case True
    with inp calls len show ?thesis by (simp add: nth_append)
  next
    case False
    with that have "s = n" by simp
    with calls len show ?thesis by (simp add: nth_append)
  qed
  have 3: "fst (calls ! 0) = rollouts st"
  proof (cases "n = 0")
    case True
    with calls len t0 show ?thesis by simp
  next
    case False
    with fst0 calls len show ?thesis by (simp add: nth_append)
  qed
  from 1 2 3 show ?case by blast
qed

lemma collect_calls:
  "length (fst (collect a w j st)) = nat (num_steps a)"
  "s < nat (num_steps a) \<Longrightarrow>
     snd (fst (collect a w j st) ! s) = act_inputs a (fst (fst (collect a w j st) ! s)) s"
  "0 < nat (num_steps a) \<Longrightarrow> fst (fst (collect a w j st) ! 0) = rollouts st"
  using collect_upto [of a w j st "nat (num_steps a)"
      "fst (collect a w j st)" "snd (collect a w j st)"]
  by (simp_all add: collect_def)

lemma decay_rollouts:
  "clip_decay a N j (lr_decay a N w j s) = Inr st1 \<Longrightarrow> rollouts st1 = rollouts s"
  by (auto simp: clip_decay_def lr_decay_def update_linear_schedule_def
      split: if_splits sum.splits)

lemma cycle_calls:
  assumes "cycle a N w j s = Some (Inr (ev, s'))"
  shows "length (ev_act_calls ev) = nat (num_steps a)"
    and "step < nat (num_steps a) \<Longrightarrow>
           snd (ev_act_calls ev ! step) = act_inputs a (fst (ev_act_calls ev ! step)) step"
    and "0 < nat (num_steps a) \<Longrightarrow> fst (ev_act_calls ev ! 0) = rollouts s"
proof -
  from assms obtain st1 where st1: "clip_decay a N j (lr_decay a N w j s) = Inr st1"
    by (auto simp: cycle_def split: sum.splits)
  from assms st1 have ev: "ev_act_calls ev = fst (collect a w j st1)"
    by (auto simp: cycle_def Let_def split: sum.splits bool.splits
        dest!: update_phase_event(7))
  from ev collect_calls(1) [of a w j st1]
  show "length (ev_act_calls ev) = nat (num_steps a)" by simp
  from ev collect_calls(2) [of step a w j st1]
  show "step < nat (num_steps a) \<Longrightarrow>
           snd (ev_act_calls ev ! step) = act_inputs a (fst (ev_act_calls ev ! step)) step"
    by simp
  from ev collect_calls(3) [of a w j st1] decay_rollouts [OF st1]
  show "0 < nat (num_steps a) \<Longrightarrow> fst (ev_act_calls ev ! 0) = rollouts s" by simp
qed

lemma main_first_cycle:
  assumes "main a N w = (evs, out)" and "0 < length evs"
  shows "\<exists>row0 s'. initial_obs a (reset_obs w) = Inr row0
           \<and> cycle a N w 0 (init_state a w row0) = Some (Inr (evs ! 0, s'))"
proof (cases "initial_obs a (reset_obs w)")
  case (Inl e)
  with assms show ?thesis by (simp add: main_def)
next
  case (Inr row0)
  with assms have tl: "train_loop a N w (range_upto N) (init_state a w row0) [] = (evs, out)"
    by (simp add: main_def)
  from main_events(1) [OF assms(1)] assms(2) have "0 < nat N" by arith
  then have r: "range_upto N = 0 # map int [Suc 0..<nat N]"
    by (simp add: range_upto_def upt_conv_Cons)
  show ?thesis
  proof (cases "cycle a N w 0 (init_state a w row0)")
    case None
    with tl r assms(2) show ?thesis by simp
  next
    case (Some res)
    show ?thesis
    proof (cases res)
      case (Inl e)
      with Some tl r assms(2) show ?thesis by simp
    next
      case (Inr p)
      obtain ev st' where p: "p = (ev, st')" by (cases p)
      with Some Inr tl r
      have "train_loop a N w (map int [Suc 0..<nat N]) st' ([] @ [ev]) = (evs, out)" by simp
      from train_loop_events [OF this] have "evs ! 0 = ev" by auto
      with Some Inr p \<open>initial_obs a (reset_obs w) = Inr row0\<close> show ?thesis by simp
    qed
  qed
qed

subsection \<open>The evaluation loop\<close>

lemma eval_body_simps:
  "eval_episode_rewards (eval_body a infos es) = eval_episode_rewards es @ episodes infos"
  "eval_steps (eval_body a infos es) = Suc (eval_steps es)"
  "act_deterministic (eval_body a infos es) = act_deterministic es @ [True]"
  "reward_list_resets (eval_body a infos es) = reward_list_resets es"
  "eval_reward_list_robot1 (eval_body a infos es) = eval_reward_list_robot1 es"
  "eval_reward_list_robot2 (eval_body a infos es) = eval_reward_list_robot2 es"
  by (simp_all add: eval_body_def Let_def)

lemma gathered_Suc: "gathered infos (Suc n) = gathered infos n @ episodes (infos n)"
  by (simp add: gathered_def)

lemma eval_rel_refl:
  "10 \<le> length (eval_episode_rewards es) \<Longrightarrow> eval_rel infos es es"
  by (simp add: eval_rel_def)

lemma eval_rel_step:
  assumes lt: "length (eval_episode_rewards es) < 10"
    and r: "eval_rel infos (eval_body a (infos (eval_steps es)) es) es'"
  shows "eval_rel infos es es'"
proof -
  let ?b = "eval_body a (infos (eval_steps es)) es"
  from r have st: "Suc (eval_steps es) \<le> eval_steps es'"
    and len: "10 \<le> length (eval_episode_rewards es')"
    and more: "\<exists>more. eval_episode_rewards es' = eval_episode_rewards ?b @ more"
    and g: "eval_episode_rewards ?b = gathered infos (eval_steps ?b) \<longrightarrow>
          eval_episode_rewards es' = gathered infos (eval_steps es')
          \<and> (\<forall>n. eval_steps ?b \<le> n \<and> n < eval_steps es' \<longrightarrow> length (gathered infos n) < 10)"
    and det: "act_deterministic es' =
          act_deterministic ?b @ replicate (eval_steps es' - eval_steps ?b) True"
    and rest: "reward_list_resets es' = reward_list_resets es"
      "eval_reward_list_robot1 es' = eval_reward_list_robot1 es"
      "eval_reward_list_robot2 es' = eval_reward_list_robot2 es"
    by (simp_all add: eval_rel_def eval_body_simps)
  have 1: "eval_steps es \<le> eval_steps es'" using st by simp
  have 3: "\<exists>more. eval_episode_rewards es' = eval_episode_rewards es @ more"
    using more by (auto simp: eval_body_simps)
  have 4: "eval_episode_rewards es' = gathered infos (eval_steps es')
          \<and> (\<forall>n. eval_steps es \<le> n \<and> n < eval_steps es' \<longrightarrow> length (gathered infos n) < 10)"
    if h: "eval_episode_rewards es = gathered infos (eval_steps es)"
  proof -
    have "eval_episode_rewards ?b = gathered infos (eval_steps ?b)"
      using h by (simp add: eval_body_simps gathered_Suc)
    with g have g1: "eval_episode_rewards es' = gathered infos (eval_steps es')"
      and g2: "\<forall>n. Suc (eval_steps es) \<le> n \<and> n < eval_steps es' \<longrightarrow> length (gathered infos n) < 10"
      by (simp_all add: eval_body_simps)
    have "length (gathered infos n) < 10" if n: "eval_steps es \<le> n \<and> n < eval_steps es'" for n
    proof (cases "n = eval_steps es")
      case True
      with h lt show ?thesis by simp
    next
      case False
      with n g2 show ?thesis by simp
    qed
    with g1 show ?thesis by blast
  qed
  have "replicate (eval_steps es' - eval_steps es) True
          = True # replicate (eval_steps es' - Suc (eval_steps es)) True"
    using st by (cases "eval_steps es' - eval_steps es") (simp_all add: Suc_diff_Suc)
  with det have 5: "act_deterministic es' =
          act_deterministic es @ replicate (eval_steps es' - eval_steps es) True"
    by (simp add: eval_body_simps)
  from 1 len 3 4 5 rest show ?thesis unfolding eval_rel_def by blast
qed

lemma eval_loop_rel:
  assumes ret: "eval_loop a infos es = Some es'"
  shows "eval_rel infos es es'"
proof (rule eval_loop.raw_induct
    [where P = "\<lambda>a infos es es'. eval_rel infos es es'", OF _ ret])
  fix f :: "args \<Rightarrow> (nat \<Rightarrow> 'a option list) \<Rightarrow> 'a eval_state \<Rightarrow> 'a eval_state option"
    and a' infos' s s'
  assume IH: "\<And>a infos es es'. f a infos es = Some es' \<Longrightarrow> eval_rel infos es es'"
    and eq: "(if length (eval_episode_rewards s) < 10
              then f a' infos' (eval_body a' (infos' (eval_steps s)) s) else Some s) = Some s'"
  show "eval_rel infos' s s'"
  proof (cases "length (eval_episode_rewards s) < 10")
    case True
    with eq have "f a' infos' (eval_body a' (infos' (eval_steps s)) s) = Some s'" by simp
    from eval_rel_step [OF True IH [OF this]] show ?thesis .
  next
    case False
    with eq have "s' = s" by simp
    with False show ?thesis by (simp add: eval_rel_refl)
  qed
qed

text \<open>The loop returns as soon as the environments have delivered 10 returns.\<close>

lemma eval_loop_returns:
  assumes "10 \<le> length (eval_episode_rewards es @
             concat (map (\<lambda>i. episodes (infos i)) [eval_steps es..<eval_steps es + n]))"
  shows "\<exists>es'. eval_loop a infos es = Some es'"
  using assms
proof (induction n arbitrary: es)
  case 0
  then show ?case by (subst eval_loop.simps) simp
next
  case (Suc n)
  show ?case
  proof (cases "length (eval_episode_rewards es) < 10")
    case False
    then show ?thesis by (subst eval_loop.simps) simp
  next
    case True
    let ?b = "eval_body a (infos (eval_steps es)) es"
    have "[eval_steps es..<eval_steps es + Suc n]
            = eval_steps es # [Suc (eval_steps es)..<Suc (eval_steps es) + n]"
      by (simp add: upt_conv_Cons del: upt_Suc)
    with Suc.prems have "10 \<le> length (eval_episode_rewards es @
             concat (map (\<lambda>i. episodes (infos i))
               (eval_steps es # [Suc (eval_steps es)..<Suc (eval_steps es) + n])))"
      by (simp only:)
    then have "10 \<le> length (eval_episode_rewards ?b @
             concat (map (\<lambda>i. episodes (infos i)) [eval_steps ?b..<eval_steps ?b + n]))"
      by (simp add: eval_body_simps del: upt_Suc)
    from Suc.IH [OF this] obtain es' where "eval_loop a infos ?b = Some es'" by blast
    with True show ?thesis by (subst eval_loop.simps) simp
  qed
qed

lemma evaluate_returns:
  assumes "10 \<le> length (gathered (eval_infos w j) n)"
  shows "\<exists>e. evaluate a w j = Some e"
proof -
  have "10 \<le> length (eval_episode_rewards (eval_init a) @
          concat (map (\<lambda>i. episodes (eval_infos w j i))
            [eval_steps (eval_init a)..<eval_steps (eval_init a) + n]))"
    using assms by (simp add: eval_init_def gathered_def)
  from eval_loop_returns [where a = a, OF this] show ?thesis by (auto simp: evaluate_def)
qed

lemma evaluate_result:
  assumes "evaluate a w j = Some e"
  shows "eval_envs_seed e = seed a + num_processes a"
    and "eval_envs_num e = num_processes a"
    and "eval_rel (eval_infos w j) (eval_init a) (eval_final e)"
  using assms by (auto simp: evaluate_def split: option.splits dest: eval_loop_rel)

subsection \<open>When the loop runs to its end\<close>

lemma skip_update_cases:
  "skip_update a j =
     (if 0 < num_rollouts a
      then (if num_processes a = 0 \<or> num_rollouts a div num_processes a = 0
            then Inl ZeroDivisionError
            else Inr (j mod (num_rollouts a div num_processes a) \<noteq> 0))
      else Inr False)"
  by (simp add: skip_update_def sub_window_index_def py_floordiv_def py_mod_def)

lemma div_nonzero_of_dvd:
  fixes r p :: int
  assumes "0 < r" "p dvd r" shows "p \<noteq> 0 \<and> r div p \<noteq> 0"
proof -
  from assms obtain k where k: "r = p * k" by (auto simp: dvd_def)
  with assms(1) have "p \<noteq> 0" "k \<noteq> 0" by auto
  with k show ?thesis by simp
qed

lemma cycle_completes:
  fixes w :: "('o, 'h, 'm, 'r) world" and s :: "('o, 'h, 'm, 'r) train_state"
  assumes N: "N \<noteq> 0"
    and dv: "0 < num_rollouts a \<longrightarrow> num_processes a dvd num_rollouts a"
    and iv: "save_interval a \<noteq> 0" "log_interval a \<noteq> 0" "eval_interval a \<noteq> Some 0"
      "vis a \<longrightarrow> vis_interval a \<noteq> 0"
    and pr: "eval_interval a \<noteq> None \<longrightarrow> (\<exists>n. 10 \<le> length (gathered (eval_infos w j) n))"
  shows "\<exists>ev s'. cycle a N w j s = Some (Inr (ev, s'))"
proof -
  have "\<exists>st1. clip_decay a N j (lr_decay a N w j s) = Inr st1"
    using N by (simp add: clip_decay_def py_truediv_def)
  then obtain st1 where st1: "clip_decay a N j (lr_decay a N w j s) = Inr st1" by blast
  have sk: "\<exists>b. skip_update a j = Inr b"
    using dv div_nonzero_of_dvd [of "num_rollouts a" "num_processes a"]
    by (auto simp: skip_update_cases)
  have cp: "\<exists>b. checkpoint_due a N j = Inr b"
    using iv(1) by (simp add: checkpoint_due_def py_mod_def)
  have lg: "\<exists>b. log_due a j st = Inr b" for st :: "('o, 'h, 'm, 'r) train_state"
    using iv(2) by (simp add: log_due_def py_mod_def)
  have ed: "\<exists>b. eval_due a j st = Inr b \<and> (b \<longrightarrow> eval_interval a \<noteq> None)"
    for st :: "('o, 'h, 'm, 'r) train_state"
    using iv(3) by (auto simp: eval_due_def py_mod_def split: option.splits)
  have vd: "\<exists>b. vis_due a j = Inr b"
    using iv(4) by (auto simp: vis_due_def py_mod_def)
  have up: "\<exists>ev s'. update_phase a N w j st ev0 = Some (Inr (ev, s'))"
    for st :: "('o, 'h, 'm, 'r) train_state" and ev0
  proof -
    from cp obtain b1 where b1: "checkpoint_due a N j = Inr b1" by blast
    from lg obtain b2 where b2: "log_due a j st = Inr b2" by blast
    from ed obtain b3 where b3: "eval_due a j st = Inr b3" "b3 \<longrightarrow> eval_interval a \<noteq> None"
      by blast
    from vd obtain b4 where b4: "vis_due a j = Inr b4" by blast
    show ?thesis
    proof (cases b3)
      case False
      with b1 b2 b3 b4 show ?thesis by (simp add: update_phase_def)
    next
      case True
      with b3 pr obtain n where "10 \<le> length (gathered (eval_infos w j) n)" by blast
      from evaluate_returns [OF this] obtain e where "evaluate a w j = Some e" by blast
      with True b1 b2 b3 b4 show ?thesis by (simp add: update_phase_def)
    qed
  qed
  from sk obtain b where b: "skip_update a j = Inr b" by blast
  show ?thesis
  proof (cases b)
    case True
    with st1 b show ?thesis by (simp add: cycle_def Let_def)
  next
    case False
    with st1 b up show ?thesis by (simp add: cycle_def Let_def)
  qed
qed

lemma train_loop_completes:
  assumes "\<forall>j \<in> set js. \<forall>s. \<exists>ev s'. cycle a N w j s = Some (Inr (ev, s'))"
  shows "\<exists>evs'. train_loop a N w js st evs = (evs', Completed)"
  using assms
proof (induction js arbitrary: st evs)
  case Nil
  then show ?case by simp
next
  case (Cons j js)
  from Cons.prems obtain ev s' where c: "cycle a N w j st = Some (Inr (ev, s'))"
    by (meson list.set_intros(1))
  from Cons.prems have "\<forall>j \<in> set js. \<forall>s. \<exists>ev s'. cycle a N w j s = Some (Inr (ev, s'))"
    by simp
  from Cons.IH [OF this] obtain evs' where
    "train_loop a N w js s' (evs @ [ev]) = (evs', Completed)" by blast
  with c show ?case by simp
qed

lemma initial_obs_returns:
  assumes "0 < num_rollouts a \<longrightarrow> num_processes a dvd num_rollouts a"
  shows "\<exists>row. initial_obs a obs0 = Inr row"
  using assms div_nonzero_of_dvd [of "num_rollouts a" "num_processes a"]
  by (auto simp: initial_obs_def py_floordiv_def py_mod_def)

lemma main_completes:
  assumes dv: "0 < num_rollouts a \<longrightarrow> num_processes a dvd num_rollouts a"
    and iv: "save_interval a \<noteq> 0" "log_interval a \<noteq> 0" "eval_interval a \<noteq> Some 0"
      "vis a \<longrightarrow> vis_interval a \<noteq> 0"
    and pr: "eval_interval a \<noteq> None \<longrightarrow> (\<forall>j. \<exists>n. 10 \<le> length (gathered (eval_infos w j) n))"
  shows "\<exists>evs. main a N w = (evs, Completed)"
proof -
  from initial_obs_returns [OF dv] obtain row where row: "initial_obs a (reset_obs w) = Inr row"
    by blast
  have "\<forall>j \<in> set (range_upto N). \<forall>s. \<exists>ev s'. cycle a N w j s = Some (Inr (ev, s'))"
  proof (intro ballI allI)
    fix j s assume "j \<in> set (range_upto N)"
    then have "N \<noteq> 0" by (auto simp: range_upto_def)
    moreover from pr
    have "eval_interval a \<noteq> None \<longrightarrow> (\<exists>n. 10 \<le> length (gathered (eval_infos w j) n))"
      by blast
    ultimately show "\<exists>ev s'. cycle a N w j s = Some (Inr (ev, s'))"
      using dv iv by (intro cycle_completes) 
  qed
  from train_loop_completes [OF this] row show ?thesis by (simp add: main_def)
qed

subsection \<open>What a run records, cycle by cycle\<close>

lemma main_update_flags:
  assumes "main a N w = (evs, out)"
  shows "map ev_update evs = map (\<lambda>i. skip_update a (int i) = Inr False) [0..<length evs]"
proof (rule nth_equalityI)
  show "length (map ev_update evs)
          = length (map (\<lambda>i. skip_update a (int i) = Inr False) [0..<length evs])"
    by simp
next
  fix i assume "i < length (map ev_update evs)"
  then have i: "i < length evs" by simp
  from main_events(3) [OF assms i] obtain s s'
    where "cycle a N w (int i) s = Some (Inr (evs ! i, s'))" by blast
  from cycle_update_iff [OF this] i
  show "map ev_update evs ! i
          = map (\<lambda>i. skip_update a (int i) = Inr False) [0..<length evs] ! i"
    by simp
qed

lemma main_checkpoint_flags:
  assumes "main a N w = (evs, out)"
  shows "map ev_checkpoint evs =
           map (\<lambda>i. skip_update a (int i) = Inr False \<and> save_dir a \<noteq> []
                       \<and> (save_interval a dvd int i \<or> int i = N - 1)) [0..<length evs]"
proof (rule nth_equalityI)
  show "length (map ev_checkpoint evs)
          = length (map (\<lambda>i. skip_update a (int i) = Inr False \<and> save_dir a \<noteq> []
                       \<and> (save_interval a dvd int i \<or> int i = N - 1)) [0..<length evs])"
    by simp
next
  fix i assume "i < length (map ev_checkpoint evs)"
  then have i: "i < length evs" by simp
  from main_events(3) [OF assms i] obtain s s'
    where c: "cycle a N w (int i) s = Some (Inr (evs ! i, s'))" by blast
  from cycle_checkpoint_iff [OF c] cycle_update_iff [OF c] i
  show "map ev_checkpoint evs ! i
          = map (\<lambda>i. skip_update a (int i) = Inr False \<and> save_dir a \<noteq> []
                       \<and> (save_interval a dvd int i \<or> int i = N - 1)) [0..<length evs] ! i"
    by simp
qed

text \<open>The log of returns after a collection phase holds at least what the phase
  delivered, up to its capacity.\<close>

lemma deque_append_length:
  "0 < m \<Longrightarrow> min m (length d + 1) \<le> length (deque_append m d x)"
  by (cases d) (auto simp: deque_append_def)

lemma foldl_deque_append_length:
  "0 < m \<Longrightarrow> min m (length d + length xs) \<le> length (foldl (deque_append m) d xs)"
proof (induction xs arbitrary: d)
  case Nil
  then show ?case by simp
next
  case (Cons x xs)
  from Cons.IH [OF Cons.prems, of "deque_append m d x"] deque_append_length [OF Cons.prems, of d x]
  show ?case by simp
qed

lemma collect_logged_upto:
  assumes m: "0 < nat (deque_len a)"
  shows "min (nat (deque_len a))
           (length (episode_rewards st)
              + length (concat (map (\<lambda>s. episodes (train_infos w j s)) [0..<n])))
         \<le> length (episode_rewards
               (snd (foldl (\<lambda>p step. collect_step a w j step p) ([], st) [0..<n])))"
proof (induction n)
  case 0
  then show ?case by simp
next
  case (Suc n)
  let ?p = "foldl (\<lambda>p step. collect_step a w j step p) ([], st) [0..<n]"
  have "episode_rewards (snd (collect_step a w j n ?p))
          = foldl (deque_append (nat (deque_len a))) (episode_rewards (snd ?p))
              (episodes (train_infos w j n))"
    by (simp add: collect_step_def Let_def)
  with foldl_deque_append_length [OF m, of "episode_rewards (snd ?p)"
      "episodes (train_infos w j n)"] Suc.IH
  show ?case by simp
qed

lemma deque_len_pos: "0 < nat (deque_len a)"
  by (simp add: deque_len_def)

lemma cycle_logged:
  assumes "cycle a N w j s = Some (Inr (ev, s'))"
  shows "min (nat (deque_len a))
           (length (concat (map (\<lambda>s. episodes (train_infos w j s)) [0..<nat (num_steps a)])))
         \<le> ev_logged_returns ev"
proof -
  from assms obtain st1 where st1: "clip_decay a N j (lr_decay a N w j s) = Inr st1"
    by (auto simp: cycle_def split: sum.splits)
  from assms st1
  have ev: "ev_logged_returns ev = length (episode_rewards (snd (collect a w j st1)))"
    by (auto simp: cycle_def Let_def split: sum.splits bool.splits
        dest!: update_phase_event(6))
  from collect_logged_upto [OF deque_len_pos, of a st1 w j "nat (num_steps a)"]
  have "min (nat (deque_len a))
           (length (concat (map (\<lambda>s. episodes (train_infos w j s)) [0..<nat (num_steps a)])))
         \<le> length (episode_rewards (snd (collect a w j st1)))"
    by (simp add: collect_def)
  with ev show ?thesis by simp
qed

lemma update_phase_eval_runs:
  assumes "update_phase a N w j st ev0 = Some (Inr (ev, s'))"
    and "eval_interval a = Some k" and "k \<noteq> 0" and "k dvd j"
    and "2 \<le> length (episode_rewards st)"
  shows "ev_eval ev = evaluate a w j" and "evaluate a w j \<noteq> None"
  using assms
  by (auto simp: update_phase_def eval_due_def py_mod_def mod_eq_0_iff_dvd
      split: sum.splits option.splits if_splits)

lemma cycle_eval_runs:
  fixes ev :: "('o, 'h, 'm, 'r) cycle_event"
  assumes c: "cycle a N w j s = Some (Inr (ev, s'))" and u: "ev_update ev"
    and k: "eval_interval a = Some k" "k \<noteq> 0" "k dvd j"
    and l: "2 \<le> ev_logged_returns ev"
  shows "ev_eval ev = evaluate a w j" and "evaluate a w j \<noteq> None"
proof -
  from c obtain st1 where st1: "clip_decay a N j (lr_decay a N w j s) = Inr st1"
    by (auto simp: cycle_def split: sum.splits)
  define st2 where "st2 = snd (collect a w j st1)"
  define ev0 :: "('o, 'h, 'm, 'r) cycle_event" where
    "ev0 = \<lparr>ev_lr = optimizer_lr st1, ev_clip_param = agent_clip_param st1,
      ev_act_calls = fst (collect a w j st1),
      ev_logged_returns = length (episode_rewards st2), ev_update = False,
      ev_checkpoint = False, ev_eval = None\<rparr>"
  from c st1 u have up: "update_phase a N w j st2 ev0 = Some (Inr (ev, s'))"
    by (auto simp: cycle_def Let_def st2_def ev0_def split: sum.splits bool.splits)
  from update_phase_event(6) [OF up] l have "2 \<le> length (episode_rewards st2)"
    by (simp add: ev0_def)
  from update_phase_eval_runs [OF up k this]
  show "ev_eval ev = evaluate a w j" "evaluate a w j \<noteq> None" by blast+
qed

subsection \<open>Two concrete runs\<close>

lemma example_args_well_formed:
  "0 < num_rollouts example_args \<longrightarrow> num_processes example_args dvd num_rollouts example_args"
  "save_interval example_args \<noteq> 0" "log_interval example_args \<noteq> 0"
  "eval_interval example_args \<noteq> Some 0" "vis example_args \<longrightarrow> vis_interval example_args \<noteq> 0"
  "eval_interval example_args \<noteq> None \<longrightarrow>
     (\<forall>j. \<exists>n. 10 \<le> length (gathered (eval_infos example_world j) n))"
  by (simp_all add: example_args_def)

lemma example_run:
  "snd (main example_args 5 example_world) = Completed"
  "length (fst (main example_args 5 example_world)) = 5"
  "map ev_update (fst (main example_args 5 example_world)) = [True, False, False, True, False]"
  "map ev_checkpoint (fst (main example_args 5 example_world))
     = [True, False, False, False, False]"
proof -
  from main_completes [OF example_args_well_formed, of 5] obtain evs
    where run: "main example_args 5 example_world = (evs, Completed)" by blast
  from main_events(2) [OF run] have len: "length evs = 5" by simp
  have u: "map (\<lambda>i. skip_update example_args (int i) = Inr False) [0..<5]
                 = [True, False, False, True, False]"
    by code_simp
  have c: "map (\<lambda>i. skip_update example_args (int i) = Inr False \<and> save_dir example_args \<noteq> []
                       \<and> (save_interval example_args dvd int i \<or> int i = 5 - 1)) [0..<5]
                 = [True, False, False, False, False]"
    by code_simp
  from run show "snd (main example_args 5 example_world) = Completed" by simp
  from run len show "length (fst (main example_args 5 example_world)) = 5" by simp
  from main_update_flags [OF run] len u run
  show "map ev_update (fst (main example_args 5 example_world))
          = [True, False, False, True, False]" by simp
  from main_checkpoint_flags [OF run] len c run
  show "map ev_checkpoint (fst (main example_args 5 example_world))
          = [True, False, False, False, False]" by simp
qed

lemma example_evaluation:
  "evaluate args_eval example_world j =
      Some \<lparr>eval_envs_seed = 3, eval_envs_num = 2,
            eval_final =
              \<lparr>eval_episode_rewards = [7, 8, 7, 8, 7, 8, 7, 8, 7, 8],
                 eval_reward_list_robot1 = [[], []],
                 eval_reward_list_robot2 = [[], []], eval_steps = 5,
                 act_deterministic = [True, True, True, True, True],
                 reward_list_resets = 0\<rparr>\<rparr>"
proof -
  have "evaluate args_eval example_world j = evaluate args_eval example_world 0"
    by (simp add: evaluate_def example_world_def)
  also have "\<dots> = Some \<lparr>eval_envs_seed = 3, eval_envs_num = 2,
            eval_final =
              \<lparr>eval_episode_rewards = [7, 8, 7, 8, 7, 8, 7, 8, 7, 8],
                 eval_reward_list_robot1 = [[], []],
                 eval_reward_list_robot2 = [[], []], eval_steps = 5,
                 act_deterministic = [True, True, True, True, True],
                 reward_list_resets = 0\<rparr>\<rparr>"
    by code_simp
  finally show ?thesis .
qed

lemma eval_run:
  "snd (main args_eval 5 example_world) = Completed"
  "length (fst (main args_eval 5 example_world)) = 5"
  "ev_eval (fst (main args_eval 5 example_world) ! 3) = evaluate args_eval example_world 3"
proof -
  have g: "10 \<le> length (gathered (eval_infos example_world j) 5)" for j
    by (simp add: gathered_def example_world_def episodes_def List.map_filter_def eval_nat_numeral)
  have wf: "0 < num_rollouts args_eval \<longrightarrow> num_processes args_eval dvd num_rollouts args_eval"
    "save_interval args_eval \<noteq> 0" "log_interval args_eval \<noteq> 0"
    "eval_interval args_eval \<noteq> Some 0" "vis args_eval \<longrightarrow> vis_interval args_eval \<noteq> 0"
    "eval_interval args_eval \<noteq> None \<longrightarrow>
       (\<forall>j. \<exists>n. 10 \<le> length (gathered (eval_infos example_world j) n))"
    using g by (auto simp: args_eval_def example_args_def)
  from main_completes [OF wf, of 5] obtain evs
    where run: "main args_eval 5 example_world = (evs, Completed)" by blast
  from main_events(2) [OF run] have len: "length evs = 5" by simp
  then have i: "3 < length evs" by simp
  from main_events(3) [OF run i] obtain s s'
    where c: "cycle args_eval 5 example_world (int 3) s = Some (Inr (evs ! 3, s'))" by blast
  have "skip_update args_eval (int 3) = Inr False" by code_simp
  with cycle_update_iff [OF c] have u: "ev_update (evs ! 3)" by simp
  have "min (nat (deque_len args_eval))
           (length (concat (map (\<lambda>s. episodes (train_infos example_world (int 3) s))
              [0..<nat (num_steps args_eval)]))) = 2"
    by code_simp
  with cycle_logged [OF c] have l: "2 \<le> ev_logged_returns (evs ! 3)" by simp
  have k: "eval_interval args_eval = Some 3" "(3 :: int) \<noteq> 0" "(3 :: int) dvd int 3"
    by (simp_all add: args_eval_def example_args_def)
  from cycle_eval_runs(1) [OF c u k l]
  have e: "ev_eval (evs ! 3) = evaluate args_eval example_world 3" by simp
  from run show "snd (main args_eval 5 example_world) = Completed" by simp
  from run len show "length (fst (main args_eval 5 example_world)) = 5" by simp
  from run e
  show "ev_eval (fst (main args_eval 5 example_world) ! 3) = evaluate args_eval example_world 3"
    by simp
qed

subsection \<open>Slices\<close>

lemma take_nth_upt: "n \<le> length xs \<Longrightarrow> take n xs = map (\<lambda>i. xs ! i) [0..<n]"
proof -
  assume n: "n \<le> length xs"
  have "take n xs = take n (map (\<lambda>i. xs ! i) [0..<length xs])" by (simp add: map_nth)
  also have "\<dots> = map (\<lambda>i. xs ! i) (take n [0..<length xs])" by (simp add: take_map)
  also have "\<dots> = map (\<lambda>i. xs ! i) [0..<n]" using n by (simp add: take_upt)
  finally show ?thesis .
qed

lemma slice_to_columns:
  "0 \<le> n \<Longrightarrow> nat n \<le> length xs \<Longrightarrow> slice_to n xs = map (\<lambda>i. xs ! i) [0..<nat n]"
  by (simp add: slice_to_def take_nth_upt)

lemma take_first_tile:
  "0 < k \<Longrightarrow> take (length xs) (concat (replicate k xs)) = xs"
  by (cases k) simp_all

lemma length_tiles: "length (concat (replicate k xs)) = k * length xs"
  by (induction k) simp_all

section \<open>The claims\<close>

subsection \<open>C1: the scheduler gate\<close>

text \<open>
  C1. The claim has the update fire when the sub-window index
  \<open>k = j mod (num_rollouts / num_processes)\<close> wraps to 0 on the next cycle, that is
  after \<open>num_rollouts / num_processes\<close> collection cycles, as the comment on line 161
  says (``only update the policies when we have performed num_rollouts simulations'').
  The gate of line 160 tests \<open>k\<close> of the current cycle instead. For 90 rollouts on 30
  workers: on cycle 0 the gate lets the update run although one cycle only has been
  collected and \<open>k\<close> of the next cycle is 1; on cycle 2, after which \<open>k\<close> wraps to 0,
  the cycle is skipped; and a run of 6 cycles updates on cycles 0 and 3.
\<close>

theorem gate_fires_on_first_cycle_of_window:
  "sub_window_index args_90_30 0 = Inr 0
   \<and> skip_update args_90_30 0 = Inr False
   \<and> sub_window_index args_90_30 (0 + 1) = Inr 1
   \<and> skip_update args_90_30 2 = Inr True
   \<and> sub_window_index args_90_30 (2 + 1) = Inr 0
   \<and> num_updates args_90_30 = Inr 6
   \<and> map ev_update (fst (main args_90_30 6 world_30)) = [True, False, False, True, False, False]"
proof -
  have gate: "sub_window_index args_90_30 0 = Inr 0
   \<and> skip_update args_90_30 0 = Inr False
   \<and> sub_window_index args_90_30 (0 + 1) = Inr 1
   \<and> skip_update args_90_30 2 = Inr True
   \<and> sub_window_index args_90_30 (2 + 1) = Inr 0
   \<and> num_updates args_90_30 = Inr 6"
    by code_simp
  have wf: "0 < num_rollouts args_90_30 \<longrightarrow> num_processes args_90_30 dvd num_rollouts args_90_30"
    "save_interval args_90_30 \<noteq> 0" "log_interval args_90_30 \<noteq> 0"
    "eval_interval args_90_30 \<noteq> Some 0" "vis args_90_30 \<longrightarrow> vis_interval args_90_30 \<noteq> 0"
    "eval_interval args_90_30 \<noteq> None \<longrightarrow>
       (\<forall>j. \<exists>n. 10 \<le> length (gathered (eval_infos world_30 j) n))"
    by (simp_all add: args_90_30_def example_args_def)
  from main_completes [OF wf, of 6] obtain evs
    where run: "main args_90_30 6 world_30 = (evs, Completed)" by blast
  from main_events(2) [OF run] have len: "length evs = 6" by simp
  have flags: "map (\<lambda>i. skip_update args_90_30 (int i) = Inr False) [0..<6]
                 = [True, False, False, True, False, False]"
    by code_simp
  from main_update_flags [OF run] len flags
  have "map ev_update evs = [True, False, False, True, False, False]" by simp
  with gate run show ?thesis by simp
qed

subsection \<open>C2: normalisation of \<open>num_rollouts\<close>\<close>

text \<open>
  C2. When \<open>num_rollouts\<close> is 0 and there is at least one worker, the normalisation
  returns, and the effective \<open>num_rollouts\<close> is the smallest positive multiple of
  \<open>num_processes\<close> that is at least 30; no other argument changes.
\<close>

theorem normalize_num_rollouts_least_multiple:
  assumes "num_rollouts a = 0" and "1 \<le> num_processes a"
  shows "\<exists>r. normalize_num_rollouts a = Some (a\<lparr>num_rollouts := r\<rparr>)
           \<and> 0 < r \<and> 30 \<le> r \<and> num_processes a dvd r
           \<and> (\<forall>m. 0 < m \<and> 30 \<le> m \<and> num_processes a dvd m \<longrightarrow> r \<le> m)"
proof (intro exI conjI allI impI)
  show "normalize_num_rollouts a = Some (a\<lparr>num_rollouts := raised_rollouts (num_processes a)\<rparr>)"
    using assms by (simp add: normalize_num_rollouts_def num_rollouts_while_0)
  show "30 \<le> raised_rollouts (num_processes a)"
    using assms(2) by (rule raised_rollouts_ge)
  then show "0 < raised_rollouts (num_processes a)" by simp
  show "num_processes a dvd raised_rollouts (num_processes a)"
    by (simp add: raised_rollouts_def)
  fix m assume "0 < m \<and> 30 \<le> m \<and> num_processes a dvd m"
  then show "raised_rollouts (num_processes a) \<le> m"
    using assms(2) by (simp add: raised_rollouts_least)
qed

theorem normalize_num_rollouts_least_multiple_witness:
  "num_rollouts args_unset_4 = 0 \<and> 1 \<le> num_processes args_unset_4
   \<and> (\<exists>r. normalize_num_rollouts args_unset_4 = Some (args_unset_4\<lparr>num_rollouts := r\<rparr>)
           \<and> 0 < r \<and> 30 \<le> r \<and> num_processes args_unset_4 dvd r
           \<and> (\<forall>m. 0 < m \<and> 30 \<le> m \<and> num_processes args_unset_4 dvd m \<longrightarrow> r \<le> m))"
proof -
  have h0: "num_rollouts args_unset_4 = 0" and h1: "1 \<le> num_processes args_unset_4"
    by (simp_all add: args_unset_4_def example_args_def)
  from normalize_num_rollouts_least_multiple [OF h0 h1] h0 h1 show ?thesis by simp
qed

subsection \<open>C3: configuration validation\<close>

text \<open>
  C3, as the code has it. Start-up is lines 23--35, the module-level code that runs
  before \<open>main()\<close>. Provided the normalisation loop is not entered with
  \<open>num_processes \<le> 0\<close> and line 35 does not divide by zero (\<open>num_steps\<close> is not 0, and
  \<open>num_processes\<close> is not 0 when \<open>num_rollouts\<close> is negative): start-up stops with an
  error exactly when \<open>num_rollouts\<close> is positive and not divisible by \<open>num_processes\<close>, or
  the algorithm is none of a2c, ppo, acktr, or a recurrent policy is asked for with an
  algorithm other than a2c and ppo; and every other such configuration reaches
  \<open>main()\<close>.
\<close>

theorem startup_fails_iff:
  assumes "num_rollouts a = 0 \<longrightarrow> 1 \<le> num_processes a"
    and "num_rollouts a < 0 \<longrightarrow> num_processes a \<noteq> 0"
    and "num_steps a \<noteq> 0"
  shows "((\<exists>e. startup a = Some (Inl e)) \<longleftrightarrow>
            (0 < num_rollouts a \<and> \<not> num_processes a dvd num_rollouts a)
            \<or> algo a \<notin> {''a2c'', ''ppo'', ''acktr''}
            \<or> (recurrent_policy a \<and> algo a \<notin> {''a2c'', ''ppo''}))
       \<and> ((\<exists>e. startup a = Some (Inl e)) \<or> (\<exists>a' N. startup a = Some (Inr (a', N))))"
proof (cases "num_rollouts a = 0")
  case True
  with assms have p: "1 \<le> num_processes a" by simp
  show ?thesis using True p assms(3)
    by (auto simp: startup_def validate_cases num_updates_cases)
next
  case False
  show ?thesis
  proof (cases "0 < num_rollouts a")
    case True
    show ?thesis using True assms(3)
      by (auto simp: startup_def validate_cases check_divisible_cases num_updates_cases)
  next
    case F2: False
    with False assms(2) have "num_rollouts a < 0" "num_processes a \<noteq> 0" by simp_all
    then show ?thesis using assms(3)
      by (auto simp: startup_def validate_cases check_divisible_cases num_updates_cases)
  qed
qed

theorem startup_fails_iff_witness:
  "num_rollouts args_unset_4 = 0 \<and> 1 \<le> num_processes args_unset_4
   \<and> num_steps args_unset_4 \<noteq> 0
   \<and> (\<exists>a' N. startup args_unset_4 = Some (Inr (a', N)))
   \<and> num_rollouts (example_args\<lparr>num_rollouts := 7\<rparr>) \<noteq> 0
   \<and> (\<exists>e. startup (example_args\<lparr>num_rollouts := 7\<rparr>) = Some (Inl e))"
proof -
  have h: "num_rollouts args_unset_4 = 0 \<longrightarrow> 1 \<le> num_processes args_unset_4"
    "num_rollouts args_unset_4 < 0 \<longrightarrow> num_processes args_unset_4 \<noteq> 0"
    "num_steps args_unset_4 \<noteq> 0"
    and c: "algo args_unset_4 = ''ppo''" "\<not> recurrent_policy args_unset_4"
      "num_rollouts args_unset_4 = 0" "1 \<le> num_processes args_unset_4"
    by (simp_all add: args_unset_4_def example_args_def)
  from startup_fails_iff [OF h] c
  have 1: "\<exists>a' N. startup args_unset_4 = Some (Inr (a', N))" by auto
  let ?b = "example_args\<lparr>num_rollouts := 7\<rparr>"
  have h': "num_rollouts ?b = 0 \<longrightarrow> 1 \<le> num_processes ?b"
    "num_rollouts ?b < 0 \<longrightarrow> num_processes ?b \<noteq> 0" "num_steps ?b \<noteq> 0"
    and c': "num_rollouts ?b \<noteq> 0" "0 < num_rollouts ?b"
      "\<not> num_processes ?b dvd num_rollouts ?b"
    by (simp_all add: example_args_def)
  from startup_fails_iff [OF h'] c'
  have 2: "\<exists>e. startup ?b = Some (Inl e)" by blast
  from c(3,4) h(3) 1 c'(1) 2 show ?thesis by blast
qed

text \<open>
  C3 as stated fails at three configurations for which none of its three conditions
  holds. With \<open>num_rollouts = 0\<close> and \<open>num_processes = 0\<close> the normalisation loop never
  returns: start-up neither fails nor gets past validation. With \<open>num_steps = 0\<close>, and
  with a negative \<open>num_rollouts\<close> and \<open>num_processes = 0\<close>, validation passes and line 35
  then stops the script with a division by zero, before \<open>main()\<close>.
\<close>

theorem startup_counterexample:
  "\<not> (0 < num_rollouts args_unset_0 \<and> \<not> num_processes args_unset_0 dvd num_rollouts args_unset_0)
   \<and> algo args_unset_0 \<in> {''a2c'', ''ppo'', ''acktr''}
   \<and> \<not> (recurrent_policy args_unset_0 \<and> algo args_unset_0 \<notin> {''a2c'', ''ppo''})
   \<and> startup args_unset_0 = None
   \<and> \<not> (0 < num_rollouts args_no_steps \<and> \<not> num_processes args_no_steps dvd num_rollouts args_no_steps)
   \<and> algo args_no_steps \<in> {''a2c'', ''ppo'', ''acktr''}
   \<and> \<not> (recurrent_policy args_no_steps \<and> algo args_no_steps \<notin> {''a2c'', ''ppo''})
   \<and> validate args_no_steps = Some (Inr args_no_steps)
   \<and> startup args_no_steps = Some (Inl ZeroDivisionError)
   \<and> \<not> (0 < num_rollouts args_negative_0
         \<and> \<not> num_processes args_negative_0 dvd num_rollouts args_negative_0)
   \<and> algo args_negative_0 \<in> {''a2c'', ''ppo'', ''acktr''}
   \<and> \<not> (recurrent_policy args_negative_0 \<and> algo args_negative_0 \<notin> {''a2c'', ''ppo''})
   \<and> validate args_negative_0 = Some (Inr args_negative_0)
   \<and> startup args_negative_0 = Some (Inl ZeroDivisionError)"
  by (simp add: startup_def validate_cases check_divisible_cases num_updates_cases
      args_unset_0_def args_no_steps_def args_negative_0_def example_args_def)

subsection \<open>C4: the number of loop iterations\<close>

text \<open>
  C4. For positive \<open>num_env_steps\<close>, \<open>num_steps\<close> and \<open>num_processes\<close>,
  \<open>num_updates\<close> is computed without error and equals
  \<open>floor(num_env_steps / (num_steps * num_processes))\<close>; the loop ranges over exactly
  that many indices; no run completes more cycles than that, and a run that reaches the
  end of the loop has completed exactly that many. The loop does reach its end when the
  divisibility invariant holds, the intervals that are used as divisors are not 0, and
  every evaluation is delivered 10 episode returns after finitely many steps.
\<close>

theorem num_updates_and_iterations:
  fixes w :: "('o, 'h, 'm, 'r) world"
  assumes "0 < num_env_steps a" and "0 < num_steps a" and "0 < num_processes a"
  shows "\<exists>N. num_updates a = Inr N
           \<and> N = \<lfloor>real_of_int (num_env_steps a)
                    / (real_of_int (num_steps a) * real_of_int (num_processes a))\<rfloor>
           \<and> length (range_upto N) = nat N
           \<and> (\<forall>evs out. main a N w = (evs, out) \<longrightarrow>
                 length evs \<le> nat N \<and> (out = Completed \<longrightarrow> int (length evs) = N))
           \<and> ((0 < num_rollouts a \<longrightarrow> num_processes a dvd num_rollouts a)
                \<and> save_interval a \<noteq> 0 \<and> log_interval a \<noteq> 0 \<and> eval_interval a \<noteq> Some 0
                \<and> (vis a \<longrightarrow> vis_interval a \<noteq> 0)
                \<and> (eval_interval a \<noteq> None \<longrightarrow>
                      (\<forall>j. \<exists>n. 10 \<le> length (gathered (eval_infos w j) n)))
                \<longrightarrow> (\<exists>evs. main a N w = (evs, Completed) \<and> int (length evs) = N))"
proof -
  let ?N = "\<lfloor>real_of_int (num_env_steps a)
              / (real_of_int (num_steps a) * real_of_int (num_processes a))\<rfloor>"
  have nu: "num_updates a = Inr ?N" using assms(2,3) by (rule num_updates_pos)
  have N0: "0 \<le> ?N" using assms by simp
  have bound: "length evs \<le> nat ?N \<and> (out = Completed \<longrightarrow> int (length evs) = ?N)"
    if "main a ?N w = (evs, out)" for evs out
    using main_events(1,2) [OF that] N0 by auto
  have total: "\<exists>evs. main a ?N w = (evs, Completed) \<and> int (length evs) = ?N"
    if wf: "(0 < num_rollouts a \<longrightarrow> num_processes a dvd num_rollouts a)
                \<and> save_interval a \<noteq> 0 \<and> log_interval a \<noteq> 0 \<and> eval_interval a \<noteq> Some 0
                \<and> (vis a \<longrightarrow> vis_interval a \<noteq> 0)
                \<and> (eval_interval a \<noteq> None \<longrightarrow>
                      (\<forall>j. \<exists>n. 10 \<le> length (gathered (eval_infos w j) n)))"
  proof -
    from wf have "\<exists>evs. main a ?N w = (evs, Completed)"
      by (intro main_completes) blast+
    then obtain evs where "main a ?N w = (evs, Completed)" by blast
    with bound [OF this] show ?thesis by blast
  qed
  from nu bound total show ?thesis by (simp add: range_upto_def)
qed

theorem num_updates_and_iterations_witness:
  "0 < num_env_steps args_eval \<and> 0 < num_steps args_eval \<and> 0 < num_processes args_eval
   \<and> num_updates args_eval = Inr 5
   \<and> (\<exists>evs. main args_eval 5 example_world = (evs, Completed) \<and> length evs = 5)"
proof -
  have h: "0 < num_env_steps args_eval" "0 < num_steps args_eval" "0 < num_processes args_eval"
    by (simp_all add: args_eval_def example_args_def)
  have N: "\<lfloor>real_of_int (num_env_steps args_eval)
              / (real_of_int (num_steps args_eval) * real_of_int (num_processes args_eval))\<rfloor> = 5"
    by (simp add: args_eval_def example_args_def)
  have g: "10 \<le> length (gathered (eval_infos example_world j) 5)" for j
    by (simp add: gathered_def example_world_def episodes_def List.map_filter_def eval_nat_numeral)
  have wf: "(0 < num_rollouts args_eval \<longrightarrow> num_processes args_eval dvd num_rollouts args_eval)
                \<and> save_interval args_eval \<noteq> 0 \<and> log_interval args_eval \<noteq> 0
                \<and> eval_interval args_eval \<noteq> Some 0
                \<and> (vis args_eval \<longrightarrow> vis_interval args_eval \<noteq> 0)
                \<and> (eval_interval args_eval \<noteq> None \<longrightarrow>
                      (\<forall>j. \<exists>n. 10 \<le> length (gathered (eval_infos example_world j) n)))"
    using g by (auto simp: args_eval_def example_args_def)
  from num_updates_and_iterations [OF h, of example_world] N wf h show ?thesis
    by auto
qed

subsection \<open>C5: capacity of the log of episode returns\<close>

text \<open>
  C5, as the code has it. The capacity of the log of episode returns is computed from
  the normalised arguments: it is \<open>num_rollouts\<close> when that was set to a positive value,
  the normalised value (the smallest multiple of \<open>num_processes\<close> that is at least 30)
  when \<open>num_rollouts\<close> was left at 0, and \<open>max(num_processes, 10)\<close> only when
  \<open>num_rollouts\<close> was set to a negative value.
\<close>

theorem deque_len_after_validate:
  assumes "validate a = Some (Inr a')"
  shows "deque_len a' =
           (if 0 < num_rollouts a then num_rollouts a
            else if num_rollouts a = 0 then raised_rollouts (num_processes a)
            else max (num_processes a) 10)"
proof -
  note v = validate_Inr [OF assms]
  show ?thesis
  proof (cases "num_rollouts a = 0")
    case True
    with v have "1 \<le> num_processes a" by simp
    from raised_rollouts_ge [OF this] v True show ?thesis by (simp add: deque_len_def)
  next
    case False
    with v show ?thesis by (auto simp: deque_len_def max_def)
  qed
qed

theorem deque_len_after_validate_witness:
  "validate example_args = Some (Inr example_args) \<and> deque_len example_args = 6
   \<and> validate (example_args\<lparr>num_rollouts := - 1\<rparr>)
       = Some (Inr (example_args\<lparr>num_rollouts := - 1\<rparr>))
   \<and> deque_len (example_args\<lparr>num_rollouts := - 1\<rparr>) = 10"
proof -
  have v: "validate example_args = Some (Inr example_args)"
    by (simp add: validate_def normalize_num_rollouts_cases check_divisible_cases example_args_def)
  let ?b = "example_args\<lparr>num_rollouts := - 1\<rparr>"
  have v': "validate ?b = Some (Inr ?b)"
    by (simp add: validate_def normalize_num_rollouts_cases check_divisible_cases example_args_def)
  from deque_len_after_validate [OF v]
  have 1: "deque_len example_args = 6" by (simp add: example_args_def)
  from deque_len_after_validate [OF v']
  have 2: "deque_len ?b = 10" by (simp add: example_args_def)
  from v 1 v' 2 show ?thesis by blast
qed

text \<open>
  C5 as stated fails: with \<open>num_rollouts = 0\<close> and 4 workers the capacity is 32, not
  \<open>max(4, 10) = 10\<close>.
\<close>

theorem deque_len_counterexample:
  "num_rollouts args_unset_4 = 0
   \<and> validate args_unset_4 = Some (Inr (args_unset_4\<lparr>num_rollouts := 32\<rparr>))
   \<and> deque_len (args_unset_4\<lparr>num_rollouts := 32\<rparr>) = 32
   \<and> max (num_processes args_unset_4) 10 = 10"
  by (simp add: validate_def normalize_num_rollouts_cases check_divisible_cases deque_len_def
      args_unset_4_def example_args_def raised_rollouts_def)

subsection \<open>C6: the checkpoint schedule\<close>

text \<open>
  C6. The claim has the final update always write a checkpoint, as the comment on
  line 171 says (``save for every interval-th episode or for the last epoch'') and as
  the test \<open>j == num_updates - 1\<close> on line 172 is there for. The gate of line 160 skips
  the rest of a collection-only cycle, line 172 with it. In the run below, of 5 cycles
  with \<open>save_dir\<close> set and \<open>save_interval = 100\<close>, the update runs on cycles 0 and 3 and
  the only checkpoint is that of cycle 0: the last update (cycle 3) writes none, the
  last cycle (cycle 4 \<open>= num_updates - 1\<close>) is skipped, and the run ends with the final
  parameters never saved.
\<close>

theorem final_update_not_checkpointed:
  "num_updates example_args = Inr 5
   \<and> save_dir example_args \<noteq> []
   \<and> snd (main example_args 5 example_world) = Completed
   \<and> map ev_update (fst (main example_args 5 example_world))
       = [True, False, False, True, False]
   \<and> map ev_checkpoint (fst (main example_args 5 example_world))
       = [True, False, False, False, False]"
proof -
  have "num_updates example_args = Inr 5 \<and> save_dir example_args \<noteq> []"
    by code_simp
  with example_run(1,3,4) show ?thesis by simp
qed

subsection \<open>C7: when an evaluation runs and when it stops\<close>

text \<open>
  C7. If an evaluation ran on a completed cycle \<open>j\<close>, then \<open>eval_interval\<close> is set and
  divides \<open>j\<close>, at least 2 episode returns were in the log after the collection phase,
  and the cycle passed the scheduler gate. Its environments were created with seed
  \<open>seed + num_processes\<close>; every \<open>act\<close> call was deterministic; the returns it gathered
  are those its environments delivered step by step; it holds at least 10 of them at
  the end, and fewer than 10 before each of its steps: the loop stops at the first step
  after which 10 returns have been gathered.
\<close>

theorem evaluation_gate_and_stop:
  fixes w :: "('o, 'h, 'm, 'r) world"
  assumes "main a N w = (evs, out)" and "j < length evs" and "ev_eval (evs ! j) = Some e"
  shows "(\<exists>k. eval_interval a = Some k \<and> k dvd int j)
       \<and> 2 \<le> ev_logged_returns (evs ! j)
       \<and> ev_update (evs ! j)
       \<and> eval_envs_seed e = seed a + num_processes a
       \<and> act_deterministic (eval_final e) = replicate (eval_steps (eval_final e)) True
       \<and> eval_episode_rewards (eval_final e)
           = gathered (eval_infos w (int j)) (eval_steps (eval_final e))
       \<and> 10 \<le> length (eval_episode_rewards (eval_final e))
       \<and> (\<forall>n < eval_steps (eval_final e). length (gathered (eval_infos w (int j)) n) < 10)"
proof -
  from main_events(3) [OF assms(1,2)] obtain s s'
    where c: "cycle a N w (int j) s = Some (Inr (evs ! j, s'))" by blast
  note ce = cycle_eval [OF c assms(3)]
  note er = evaluate_result [OF ce(4)]
  have g0: "eval_episode_rewards (eval_init a :: 'r eval_state)
              = gathered (eval_infos w (int j)) (eval_steps (eval_init a :: 'r eval_state))"
    by (simp add: eval_init_def gathered_def)
  from er(3) have len: "10 \<le> length (eval_episode_rewards (eval_final e))"
    and det: "act_deterministic (eval_final e) =
          act_deterministic (eval_init a :: 'r eval_state)
            @ replicate (eval_steps (eval_final e) - eval_steps (eval_init a :: 'r eval_state)) True"
    and imp: "eval_episode_rewards (eval_init a :: 'r eval_state)
                = gathered (eval_infos w (int j)) (eval_steps (eval_init a :: 'r eval_state)) \<longrightarrow>
          eval_episode_rewards (eval_final e)
            = gathered (eval_infos w (int j)) (eval_steps (eval_final e))
          \<and> (\<forall>n. eval_steps (eval_init a :: 'r eval_state) \<le> n \<and> n < eval_steps (eval_final e)
                \<longrightarrow> length (gathered (eval_infos w (int j)) n) < 10)"
    unfolding eval_rel_def by blast+
  from imp g0 have gat: "eval_episode_rewards (eval_final e)
            = gathered (eval_infos w (int j)) (eval_steps (eval_final e))"
    and soon: "\<forall>n. eval_steps (eval_init a :: 'r eval_state) \<le> n \<and> n < eval_steps (eval_final e)
                \<longrightarrow> length (gathered (eval_infos w (int j)) n) < 10"
    by blast+
  from det have det': "act_deterministic (eval_final e) = replicate (eval_steps (eval_final e)) True"
    by (simp add: eval_init_def)
  from soon have soon': "\<forall>n < eval_steps (eval_final e). length (gathered (eval_infos w (int j)) n) < 10"
    by (simp add: eval_init_def)
  note fin = det' gat len soon'
  from ce(1-3) er(1) fin show ?thesis by blast
qed

theorem evaluation_gate_and_stop_witness:
  "ev_eval (fst (main args_eval 5 example_world) ! 3) \<noteq> None
   \<and> eval_interval args_eval = Some 3 \<and> (3 :: int) dvd int 3
   \<and> 2 \<le> ev_logged_returns (fst (main args_eval 5 example_world) ! 3)
   \<and> eval_envs_seed (the (ev_eval (fst (main args_eval 5 example_world) ! 3)))
       = seed args_eval + num_processes args_eval
   \<and> 10 \<le> length (eval_episode_rewards
              (eval_final (the (ev_eval (fst (main args_eval 5 example_world) ! 3)))))
   \<and> eval_steps (eval_final (the (ev_eval (fst (main args_eval 5 example_world) ! 3)))) = 5"
proof -
  let ?e = "the (ev_eval (fst (main args_eval 5 example_world) ! 3))"
  have j: "3 < length (fst (main args_eval 5 example_world))"
    by (simp add: eval_run(2))
  have ne: "ev_eval (fst (main args_eval 5 example_world) ! 3) \<noteq> None"
    and n: "eval_steps (eval_final ?e) = 5"
    by (simp_all add: eval_run(3) example_evaluation)
  from ne have e: "ev_eval (fst (main args_eval 5 example_world) ! 3) = Some ?e"
    by auto
  have m: "main args_eval 5 example_world
             = (fst (main args_eval 5 example_world), snd (main args_eval 5 example_world))"
    by simp
  have c: "eval_interval args_eval = Some 3" "(3 :: int) dvd int 3"
    by (simp_all add: args_eval_def example_args_def)
  from evaluation_gate_and_stop [OF m j e]
  have "2 \<le> ev_logged_returns (fst (main args_eval 5 example_world) ! 3)"
    "eval_envs_seed ?e = seed args_eval + num_processes args_eval"
    "10 \<le> length (eval_episode_rewards (eval_final ?e))"
    by blast+
  with c ne n show ?thesis by blast
qed

subsection \<open>C8: decay on every cycle\<close>

text \<open>
  C8. On every completed cycle \<open>j\<close>, whether or not the update ran on it, the
  learning rate in force is the base rate times \<open>1 - j / num_updates\<close> when the linear
  decay is enabled (the base rate is \<open>args.lr\<close>, and for ACKTR the optimizer's own
  \<open>lr\<close>), and the clip parameter is \<open>clip_param * (1 - j / num_updates)\<close> when the
  algorithm is PPO and the clip decay is enabled. The witness is a cycle the gate skips.
\<close>

theorem decay_on_every_cycle:
  assumes "main a N w = (evs, out)" and "j < length evs"
  shows "(use_linear_lr_decay a \<longrightarrow>
            ev_lr (evs ! j) = (if algo a = ''acktr'' then kfac_lr w else lr a)
                                * (1 - real j / real_of_int N))
       \<and> (algo a = ''ppo'' \<and> use_linear_clip_decay a \<longrightarrow>
            ev_clip_param (evs ! j) = clip_param a * (1 - real j / real_of_int N))"
proof -
  from main_events(3) [OF assms] obtain s s'
    where c: "cycle a N w (int j) s = Some (Inr (evs ! j, s'))" by blast
  from cycle_lr [OF c] cycle_clip(1) [OF c] show ?thesis by simp
qed

theorem decay_on_every_cycle_witness:
  "use_linear_lr_decay example_args \<and> algo example_args = ''ppo''
   \<and> use_linear_clip_decay example_args
   \<and> \<not> ev_update (fst (main example_args 5 example_world) ! 1)
   \<and> ev_lr (fst (main example_args 5 example_world) ! 1) = lr example_args * (1 - 1 / 5)
   \<and> ev_clip_param (fst (main example_args 5 example_world) ! 1)
       = clip_param example_args * (1 - 1 / 5)"
proof -
  have j: "1 < length (fst (main example_args 5 example_world))"
    by (simp add: example_run(2))
  have m: "main example_args 5 example_world
             = (fst (main example_args 5 example_world), snd (main example_args 5 example_world))"
    by simp
  have c: "use_linear_lr_decay example_args" "algo example_args = ''ppo''"
    "use_linear_clip_decay example_args"
    by (simp_all add: example_args_def)
  have "map ev_update (fst (main example_args 5 example_world)) ! 1
          = [True, False, False, True, False] ! 1"
    by (simp only: example_run(3))
  with j have u: "\<not> ev_update (fst (main example_args 5 example_world) ! 1)"
    by simp
  from decay_on_every_cycle [OF m j] c
  have "ev_lr (fst (main example_args 5 example_world) ! 1) = lr example_args * (1 - 1 / 5)"
    "ev_clip_param (fst (main example_args 5 example_world) ! 1)
       = clip_param example_args * (1 - 1 / 5)"
    by simp_all
  with c u show ?thesis by blast
qed

subsection \<open>C9: the \<open>reset_rewards\<close> flag\<close>

text \<open>
  C9. No iteration of the evaluation loop runs the branch under
  \<open>if reset_rewards\<close>: an iteration leaves the count of its executions and both reward
  lists as they were, and an evaluation that returns has never run it and ends with
  the reward lists it started with.
\<close>

theorem reset_rewards_dead:
  "reward_list_resets (eval_body a infos es) = reward_list_resets es
   \<and> eval_reward_list_robot1 (eval_body a infos es) = eval_reward_list_robot1 es
   \<and> eval_reward_list_robot2 (eval_body a infos es) = eval_reward_list_robot2 es
   \<and> (\<forall>e. evaluate a w j = Some e \<longrightarrow>
         reward_list_resets (eval_final e) = 0
         \<and> eval_reward_list_robot1 (eval_final e) = replicate (nat (num_processes a)) []
         \<and> eval_reward_list_robot2 (eval_final e) = replicate (nat (num_processes a)) [])"
proof -
  have "reward_list_resets (eval_final e) = 0
         \<and> eval_reward_list_robot1 (eval_final e) = replicate (nat (num_processes a)) []
         \<and> eval_reward_list_robot2 (eval_final e) = replicate (nat (num_processes a)) []"
    if "evaluate a w j = Some e" for e
    using evaluate_result(3) [OF that] by (simp add: eval_rel_def eval_init_def)
  then show ?thesis by (simp add: eval_body_simps)
qed

theorem reset_rewards_dead_witness:
  "evaluate args_eval example_world 0 \<noteq> None
   \<and> reward_list_resets (eval_final (the (evaluate args_eval example_world 0))) = 0
   \<and> eval_reward_list_robot1 (eval_final (the (evaluate args_eval example_world 0))) = [[], []]
   \<and> eval_steps (eval_final (the (evaluate args_eval example_world 0))) = 5"
proof -
  have ev: "evaluate args_eval example_world 0 =
      Some \<lparr>eval_envs_seed = 3, eval_envs_num = 2,
            eval_final =
              \<lparr>eval_episode_rewards = [7, 8, 7, 8, 7, 8, 7, 8, 7, 8],
                 eval_reward_list_robot1 = [[], []],
                 eval_reward_list_robot2 = [[], []], eval_steps = 5,
                 act_deterministic = [True, True, True, True, True],
                 reward_list_resets = 0\<rparr>\<rparr>"
    by code_simp
  have "reward_list_resets (eval_final (the (evaluate args_eval example_world 0))) = 0"
    using reset_rewards_dead [of args_eval "[]" "eval_init args_eval" example_world 0] ev
    by simp
  with ev show ?thesis by simp
qed

subsection \<open>C10: what the collection reads and the first observation\<close>

text \<open>
  C10. On every completed cycle \<open>j\<close> the collection phase calls \<open>act\<close> once per step,
  \<open>num_steps\<close> times, and at step \<open>step\<close> its arguments are the slices
  \<open>[: num_processes]\<close> of slot \<open>step\<close> of the observations, hidden states and masks of
  the storage as it is then: columns \<open>0 .. num_processes - 1\<close> when the storage is that
  wide, whatever \<open>j\<close> is, so that two cycles that find the same storage at a step pass the
  same arguments. Under the divisibility invariant the storage that the first call of
  the run reads has in slot 0 of the observations the reset batch repeated
  \<open>num_rollouts / num_processes\<close> times, the trailing slice being empty; for a reset
  batch of \<open>num_processes\<close> entries that row has the width of the storage, and the first
  call is passed the reset batch itself.
\<close>

theorem collection_reads_fixed_window:
  assumes "main a N w = (evs, out)" and "j < length evs" and "step < nat (num_steps a)"
  shows "length (ev_act_calls (evs ! j)) = nat (num_steps a)
       \<and> snd (ev_act_calls (evs ! j) ! step)
           = (slice_to (num_processes a) (obs (fst (ev_act_calls (evs ! j) ! step)) step),
              slice_to (num_processes a)
                (recurrent_hidden_states (fst (ev_act_calls (evs ! j) ! step)) step),
              slice_to (num_processes a) (masks (fst (ev_act_calls (evs ! j) ! step)) step))
       \<and> (0 \<le> num_processes a
            \<and> nat (num_processes a) \<le> length (obs (fst (ev_act_calls (evs ! j) ! step)) step)
            \<and> nat (num_processes a)
                \<le> length (recurrent_hidden_states (fst (ev_act_calls (evs ! j) ! step)) step)
            \<and> nat (num_processes a) \<le> length (masks (fst (ev_act_calls (evs ! j) ! step)) step)
            \<longrightarrow> snd (ev_act_calls (evs ! j) ! step)
                  = (map (\<lambda>i. obs (fst (ev_act_calls (evs ! j) ! step)) step ! i)
                       [0..<nat (num_processes a)],
                     map (\<lambda>i. recurrent_hidden_states (fst (ev_act_calls (evs ! j) ! step)) step ! i)
                       [0..<nat (num_processes a)],
                     map (\<lambda>i. masks (fst (ev_act_calls (evs ! j) ! step)) step ! i)
                       [0..<nat (num_processes a)]))
       \<and> (\<forall>j' < length evs.
             fst (ev_act_calls (evs ! j') ! step) = fst (ev_act_calls (evs ! j) ! step)
             \<longrightarrow> snd (ev_act_calls (evs ! j') ! step) = snd (ev_act_calls (evs ! j) ! step))
       \<and> (0 < num_rollouts a \<and> num_processes a \<noteq> 0 \<and> num_processes a dvd num_rollouts a \<longrightarrow>
            obs (fst (ev_act_calls (evs ! 0) ! 0)) 0
              = concat (replicate (nat (num_rollouts a div num_processes a)) (reset_obs w))
            \<and> slice_to (num_rollouts a mod num_processes a) (reset_obs w) = []
            \<and> (int (length (reset_obs w)) = num_processes a \<longrightarrow>
                 int (length (obs (fst (ev_act_calls (evs ! 0) ! 0)) 0)) = storage_width a
                 \<and> fst (snd (ev_act_calls (evs ! 0) ! 0)) = reset_obs w))"
proof -
  let ?c = "ev_act_calls (evs ! j) ! step"
  from main_events(3) [OF assms(1,2)] obtain s s'
    where c: "cycle a N w (int j) s = Some (Inr (evs ! j, s'))" by blast
  have 1: "length (ev_act_calls (evs ! j)) = nat (num_steps a)"
    by (rule cycle_calls(1) [OF c])
  have inp: "snd ?c = act_inputs a (fst ?c) step"
    by (rule cycle_calls(2) [OF c assms(3)])
  then have 2: "snd ?c
           = (slice_to (num_processes a) (obs (fst ?c) step),
              slice_to (num_processes a) (recurrent_hidden_states (fst ?c) step),
              slice_to (num_processes a) (masks (fst ?c) step))"
    by (simp add: act_inputs_def)
  have 3: "snd ?c = (map (\<lambda>i. obs (fst ?c) step ! i) [0..<nat (num_processes a)],
                     map (\<lambda>i. recurrent_hidden_states (fst ?c) step ! i)
                       [0..<nat (num_processes a)],
                     map (\<lambda>i. masks (fst ?c) step ! i) [0..<nat (num_processes a)])"
    if "0 \<le> num_processes a \<and> nat (num_processes a) \<le> length (obs (fst ?c) step)
          \<and> nat (num_processes a) \<le> length (recurrent_hidden_states (fst ?c) step)
          \<and> nat (num_processes a) \<le> length (masks (fst ?c) step)"
    using that 2 by (simp add: slice_to_columns)
  have 4: "snd (ev_act_calls (evs ! j') ! step) = snd ?c"
    if j': "j' < length evs" and eq: "fst (ev_act_calls (evs ! j') ! step) = fst ?c" for j'
  proof -
    from main_events(3) [OF assms(1) j'] obtain t t'
      where "cycle a N w (int j') t = Some (Inr (evs ! j', t'))" by blast
    from cycle_calls(2) [OF this assms(3)] eq inp show ?thesis by simp
  qed
  have 5: "obs (fst (ev_act_calls (evs ! 0) ! 0)) 0
              = concat (replicate (nat (num_rollouts a div num_processes a)) (reset_obs w))
            \<and> slice_to (num_rollouts a mod num_processes a) (reset_obs w) = []
            \<and> (int (length (reset_obs w)) = num_processes a \<longrightarrow>
                 int (length (obs (fst (ev_act_calls (evs ! 0) ! 0)) 0)) = storage_width a
                 \<and> fst (snd (ev_act_calls (evs ! 0) ! 0)) = reset_obs w)"
    if h: "0 < num_rollouts a \<and> num_processes a \<noteq> 0 \<and> num_processes a dvd num_rollouts a"
  proof -
    let ?n = "nat (num_rollouts a div num_processes a)"
    let ?row = "concat (replicate ?n (reset_obs w))"
    from assms(2) have e0: "0 < length evs" by arith
    from assms(3) have s0: "0 < nat (num_steps a)" by simp
    from h have m: "num_rollouts a mod num_processes a = 0" by (simp add: mod_eq_0_iff_dvd)
    have sl: "slice_to (num_rollouts a mod num_processes a) (reset_obs w) = []"
      by (simp add: m slice_to_def)
    have io: "initial_obs a (reset_obs w) = Inr ?row"
      using h by (simp add: initial_obs_def py_floordiv_def py_mod_def m slice_to_def)
    from main_first_cycle [OF assms(1) e0] io obtain t'
      where c0: "cycle a N w 0 (init_state a w ?row) = Some (Inr (evs ! 0, t'))" by auto
    from cycle_calls(3) [OF c0 s0]
    have ro: "fst (ev_act_calls (evs ! 0) ! 0) = write_initial_obs (new_rollouts w) ?row"
      by (simp add: init_state_def)
    then have row: "obs (fst (ev_act_calls (evs ! 0) ! 0)) 0 = ?row"
      by (simp add: write_initial_obs_def)
    have rest: "int (length (obs (fst (ev_act_calls (evs ! 0) ! 0)) 0)) = storage_width a
                 \<and> fst (snd (ev_act_calls (evs ! 0) ! 0)) = reset_obs w"
      if len: "int (length (reset_obs w)) = num_processes a"
    proof -
      from len have "0 \<le> num_processes a" by linarith
      with h have p: "0 < num_processes a" by simp
      from h obtain k where k: "num_rollouts a = num_processes a * k" by (auto simp: dvd_def)
      with h p have "0 < k" by (simp add: zero_less_mult_iff)
      with k p have q: "0 < num_rollouts a div num_processes a" by simp
      have "int (length ?row) = (num_rollouts a div num_processes a) * num_processes a"
        using q len by (simp add: length_tiles)
      also have "\<dots> = num_rollouts a" using h by simp
      finally have w: "int (length ?row) = storage_width a"
        using h by (simp add: storage_width_def)
      have np: "nat (num_processes a) = length (reset_obs w)" using len by simp
      from cycle_calls(2) [OF c0 s0]
      have "fst (snd (ev_act_calls (evs ! 0) ! 0)) = slice_to (num_processes a) ?row"
        by (simp add: act_inputs_def row)
      also have "\<dots> = take (length (reset_obs w)) ?row"
        using p np by (simp add: slice_to_def)
      also have "\<dots> = reset_obs w"
        using q by (simp add: take_first_tile)
      finally show ?thesis using w row by simp
    qed
    from row sl rest show ?thesis by blast
  qed
  from 1 2 3 4 5 show ?thesis by blast
qed

theorem collection_reads_fixed_window_witness:
  "1 < length (fst (main example_args 5 example_world))
   \<and> (1 :: nat) < nat (num_steps example_args)
   \<and> length (ev_act_calls (fst (main example_args 5 example_world) ! 1)) = 2
   \<and> 0 < num_rollouts example_args \<and> num_processes example_args \<noteq> 0
   \<and> num_processes example_args dvd num_rollouts example_args
   \<and> int (length (reset_obs example_world)) = num_processes example_args
   \<and> obs (fst (ev_act_calls (fst (main example_args 5 example_world) ! 0) ! 0)) 0
       = [0, 1, 0, 1, 0, 1]
   \<and> storage_width example_args = 6
   \<and> fst (snd (ev_act_calls (fst (main example_args 5 example_world) ! 0) ! 0)) = [0, 1]"
proof -
  let ?evs = "fst (main example_args 5 example_world)"
  have m: "main example_args 5 example_world = (?evs, snd (main example_args 5 example_world))"
    by simp
  have j: "1 < length ?evs" "0 < length ?evs" by (simp_all add: example_run(2))
  have st: "(1 :: nat) < nat (num_steps example_args)" "(0 :: nat) < nat (num_steps example_args)"
    "nat (num_steps example_args) = 2"
    by (simp_all add: example_args_def)
  have h: "0 < num_rollouts example_args \<and> num_processes example_args \<noteq> 0
      \<and> num_processes example_args dvd num_rollouts example_args"
    and l: "int (length (reset_obs example_world)) = num_processes example_args"
    and t: "concat (replicate (nat (num_rollouts example_args div num_processes example_args))
              (reset_obs example_world)) = [0, 1, 0, 1, 0, 1]"
    and r: "reset_obs example_world = [0, 1]"
    by (simp_all add: example_args_def example_world_def numeral_3_eq_3)
  from collection_reads_fixed_window [OF m j(1) st(1)] st(3)
  have 1: "length (ev_act_calls (?evs ! 1)) = 2" by simp
  from collection_reads_fixed_window [OF m j(2) st(2)] h l
  have "obs (fst (ev_act_calls (?evs ! 0) ! 0)) 0
          = concat (replicate (nat (num_rollouts example_args div num_processes example_args))
              (reset_obs example_world))"
    "int (length (obs (fst (ev_act_calls (?evs ! 0) ! 0)) 0)) = storage_width example_args"
    "fst (snd (ev_act_calls (?evs ! 0) ! 0)) = reset_obs example_world"
    by blast+
  with t r have 2: "obs (fst (ev_act_calls (?evs ! 0) ! 0)) 0 = [0, 1, 0, 1, 0, 1]"
    "storage_width example_args = 6"
    "fst (snd (ev_act_calls (?evs ! 0) ! 0)) = [0, 1]"
    by simp_all
  from j(1) st(1) 1 h l 2 show ?thesis by blast
qed

end
